theory Spec2Isabelle
  imports Main "HOL-Library.Word" "HOL-Library.Char_ord" "HOL-Library.List_Lexorder"
begin

unbundle bit_operations_syntax

chapter \<open>Definitions: the embedding of the amqp-client sources\<close>

section \<open>Errors (lib/errors.ts, proto/constant.ts)\<close>

text \<open>
  \<open>REPLY_CODES.REPLY_HARD_ERROR\<close> and \<open>REPLY_CODES.REPLY_SOFT_ERROR\<close> of
  proto/constant.ts: the keys a \<open>HardError\<close> or \<open>SoftError\<close> is built from.
\<close>

datatype ReplyHard =
  connection_forced | invalid_path | frame_error | syntax_error | command_invalid
  | channel_error | unexpected_frame | resource_error | not_allowed | not_implemented
  | internal_error

datatype ReplySoft =
  content_too_large | no_route | no_consumers | access_refused | not_found
  | resource_locked | precondition_failed

text \<open>
  The exceptions the sources throw. \<open>HardError\<close> and \<open>SoftError\<close> carry
  \<open>(method_id, reply, reply_text)\<close>; the optional diagnostic \<open>data\<close> payload is
  left out. \<open>CloseErrorBase\<close> carries \<open>(method_id, reply_code, reply_text)\<close>.
  The remaining constructors are the JavaScript built-ins with their message.
\<close>

datatype error =
  HardError nat ReplyHard string
  | SoftError nat ReplySoft string
  | CloseErrorBase nat nat string
  | RangeError string
  | JsError string

text \<open>The entries of \<open>METHODS\<close> (proto/api.ts) that the modelled code names.\<close>

definition METHODS_connection_start :: nat where "METHODS_connection_start = 655370"
definition METHODS_channel_open :: nat where "METHODS_channel_open = 1310730"
definition METHODS_channel_close_ok :: nat where "METHODS_channel_close_ok = 1310761"
definition METHODS_connection_close_ok :: nat where "METHODS_connection_close_ok = 655411"
definition METHODS_basic_properties :: nat where "METHODS_basic_properties = 60"
definition METHODS_basic_consume :: nat where "METHODS_basic_consume = 3932180"
definition METHODS_basic_deliver :: nat where "METHODS_basic_deliver = 3932220"

section \<open>JavaScript's default \<open>Array.prototype.sort\<close>\<close>

text \<open>
  \<open>sort()\<close> without a comparator converts every element to a string and orders the
  strings by their UTF-16 code units, a proper prefix first. It is stable. On strings
  that is the lexicographic order of \<open>char list\<close>, and \<open>sort_key\<close> is a stable
  insertion sort. \<open>number_toString\<close> is \<open>Number.prototype.toString\<close> on a
  non-negative integer (the ids below are far from the exponent notation of 1e21).
\<close>

definition digit_char :: "nat \<Rightarrow> char" where
  "digit_char d = char_of (48 + d)"

fun number_toString :: "nat \<Rightarrow> string" where
  "number_toString n =
     (if n < 10 then [digit_char n]
      else number_toString (n div 10) @ [digit_char (n mod 10)])"

declare number_toString.simps [simp del]

definition js_sort_numbers :: "nat list \<Rightarrow> nat list" where
  "js_sort_numbers xs = sort_key number_toString xs"

section \<open>UniqueId and UniqueFactory (lib/channel.ts)\<close>

text \<open>
  \<open>class UniqueId { time = Date.now(); sequence = 0; compare(id) {...} }\<close>.
  The wall clock is an input of the model: \<open>UniqueId_new now\<close> is the constructor run
  at the millisecond \<open>now\<close>.
\<close>

record UniqueId =
  time :: int
  sequence :: int

definition UniqueId_new :: "int \<Rightarrow> UniqueId" where
  "UniqueId_new now = \<lparr> time = now, sequence = 0 \<rparr>"

definition compare :: "UniqueId \<Rightarrow> UniqueId \<Rightarrow> int" where
  "compare this uid =
     (let time_diff = time this - time uid in
      if time_diff \<noteq> 0 then time_diff else sequence this - sequence uid)"

text \<open>
  \<open>const UniqueFactory = { last_id: new UniqueId(), generate() {...} }\<close>.
  \<open>generate\<close> reads \<open>last_id\<close> and never assigns it, so the factory it returns is the
  factory it was given.
\<close>

record UniqueFactory =
  last_id :: UniqueId

definition UniqueFactory_new :: "int \<Rightarrow> UniqueFactory" where
  "UniqueFactory_new now = \<lparr> last_id = UniqueId_new now \<rparr>"

definition generate :: "UniqueFactory \<Rightarrow> int \<Rightarrow> UniqueId \<times> UniqueFactory" where
  "generate this now =
     (let uid = UniqueId_new now in
      if time uid = time (last_id this)
      then (uid \<lparr> sequence := sequence (last_id this) + 1 \<rparr>, this)
      else (uid, this))"

section \<open>Connection.channel_open (lib/channel.ts)\<close>

text \<open>
  The part of the connection that \<open>channel_open\<close> reads and writes. \<open>channels\<close> is the
  \<open>Map<number, ChannelChildAbstract>\<close>, as an association list in insertion order;
  the channel objects are of any type \<open>'ch\<close>, built by the \<open>child_class\<close> constructor
  the caller passes.
\<close>

record 'ch Connection =
  opened :: bool
  conn_destroyed :: bool
  blocked :: bool
  options_channel_max :: nat
  channels :: "(nat \<times> 'ch) list"

text \<open>\<open>Map.prototype.set\<close>: an existing key keeps its place, a new key goes last.\<close>

fun map_set :: "('k \<times> 'v) list \<Rightarrow> 'k \<Rightarrow> 'v \<Rightarrow> ('k \<times> 'v) list" where
  "map_set [] k v = [(k, v)]"
| "map_set ((k', v') # m) k v = (if k' = k then (k, v) # m else (k', v') # map_set m k v)"

text \<open>
  \<open>for (let i = last_id - 1; i > 0; i--) { if (!this.channels.get(i)) { id = i; break; } }\<close>
  with \<open>i\<close> the loop variable and \<open>cid\<close> the value of \<open>id\<close>, kept when no \<open>i\<close> is free.
\<close>

fun find_free :: "(nat \<times> 'ch) list \<Rightarrow> nat \<Rightarrow> nat \<Rightarrow> nat" where
  "find_free chs 0 cid = cid"
| "find_free chs (Suc i) cid =
     (if map_of chs (Suc i) = None then Suc i else find_free chs i cid)"

definition next_channel_id :: "(nat \<times> 'ch) list \<Rightarrow> nat" where
  "next_channel_id chs =
     (let ids = js_sort_numbers (map fst chs) in
      if ids \<noteq> [] then
        (let last_id = ids ! (length ids - 1) in
         if last_id > length ids then find_free chs (last_id - 1) 1
         else last_id + 1)
      else 1)"

text \<open>
  The body of the \<open>process.nextTick\<close> callback of \<open>channel_open\<close>: the rejections, the
  choice of the id, and \<open>this.channels.set(id, new child_class(this, id))\<close>. The result
  is the chosen id with the updated connection.
\<close>

definition channel_open :: "(nat \<Rightarrow> 'ch) \<Rightarrow> 'ch Connection \<Rightarrow> error + (nat \<times> 'ch Connection)" where
  "channel_open child_class this =
     (if \<not> opened this \<or> conn_destroyed this \<or> blocked this
      then Inl (HardError METHODS_channel_open channel_error ''Connection inactive'')
      else if length (channels this) = options_channel_max this
      then Inl (HardError METHODS_channel_open channel_error ''Channel max limit exceeded'')
      else
        (let cid = next_channel_id (channels this) in
         Inr (cid, this \<lparr> channels := map_set (channels this) cid (child_class cid) \<rparr>)))"

text \<open>A connection with the ids 1 and 4 allocated, for the concrete evaluations below.\<close>

definition conn14 :: "unit Connection" where
  "conn14 = \<lparr> opened = True, conn_destroyed = False, blocked = False, options_channel_max = 100,
       channels = [(1, ()), (4, ())] \<rparr>"

section \<open>Node.js Buffer primitives\<close>

text \<open>
  A \<open>Buffer\<close> is a list of octets. \<open>Buffer.allocUnsafe(n)\<close> returns \<open>n\<close> octets of
  unspecified content: the model reads them from an arbitrary memory \<open>mem\<close>, which is a
  parameter of everything that allocates.
\<close>

type_synonym byte = "8 word"
type_synonym Buffer = "byte list"

definition allocUnsafe :: "(nat \<Rightarrow> byte) \<Rightarrow> nat \<Rightarrow> Buffer" where
  "allocUnsafe mem n = map mem [0..<n]"

text \<open>Big-endian octets of a number, and the number of big-endian octets.\<close>

fun be_bytes :: "nat \<Rightarrow> nat \<Rightarrow> byte list" where
  "be_bytes 0 v = []"
| "be_bytes (Suc n) v = of_nat (v div 256 ^ n) # be_bytes n v"

fun be_value :: "byte list \<Rightarrow> nat" where
  "be_value [] = 0"
| "be_value (b # bs) = unat b * 256 ^ length bs + be_value bs"

definition write_at :: "Buffer \<Rightarrow> nat \<Rightarrow> byte list \<Rightarrow> Buffer" where
  "write_at buf offset bs = take offset buf @ bs @ drop (offset + length bs) buf"

text \<open>
  \<open>buf.writeUInt8(value, offset)\<close>, \<open>writeUInt16BE\<close>, \<open>writeUInt32BE\<close>,
  \<open>writeBigUInt64BE\<close> and \<open>writeUIntBE(value, offset, byteLength)\<close>: a value or an
  offset out of range throws \<open>ERR_OUT_OF_RANGE\<close>, a \<open>RangeError\<close>. Values are
  non-negative integers here.
\<close>

definition ERR_OUT_OF_RANGE :: error where
  "ERR_OUT_OF_RANGE = RangeError ''ERR_OUT_OF_RANGE''"

definition writeUIntBE :: "Buffer \<Rightarrow> nat \<Rightarrow> nat \<Rightarrow> nat \<Rightarrow> error + Buffer" where
  "writeUIntBE buf val offset byteLength =
     (if val < 256 ^ byteLength \<and> offset + byteLength \<le> length buf
      then Inr (write_at buf offset (be_bytes byteLength val))
      else Inl ERR_OUT_OF_RANGE)"

definition writeUInt8 :: "Buffer \<Rightarrow> nat \<Rightarrow> nat \<Rightarrow> error + Buffer" where
  "writeUInt8 buf val offset = writeUIntBE buf val offset 1"

definition writeUInt16BE :: "Buffer \<Rightarrow> nat \<Rightarrow> nat \<Rightarrow> error + Buffer" where
  "writeUInt16BE buf val offset = writeUIntBE buf val offset 2"

definition writeUInt32BE :: "Buffer \<Rightarrow> nat \<Rightarrow> nat \<Rightarrow> error + Buffer" where
  "writeUInt32BE buf val offset = writeUIntBE buf val offset 4"

definition writeBigUInt64BE :: "Buffer \<Rightarrow> nat \<Rightarrow> nat \<Rightarrow> error + Buffer" where
  "writeBigUInt64BE buf val offset = writeUIntBE buf val offset 8"

text \<open>\<open>buf.set(source, offset)\<close>: a source that does not fit throws a \<open>RangeError\<close>.\<close>

definition Buffer_set :: "Buffer \<Rightarrow> Buffer \<Rightarrow> nat \<Rightarrow> error + Buffer" where
  "Buffer_set buf source offset =
     (if offset + length source \<le> length buf then Inr (write_at buf offset source)
      else Inl (RangeError ''offset is out of bounds''))"

text \<open>
  A JavaScript string is given by its UTF-8 octets, those that \<open>Buffer.from(string,
  'utf8')\<close> makes of it. Its characters are the runs of one octet that is not a
  continuation octet (\<open>10xxxxxx\<close>) followed by continuation octets.
\<close>

definition is_continuation :: "byte \<Rightarrow> bool" where
  "is_continuation b \<longleftrightarrow> b AND 0xC0 = 0x80"

function utf8_characters :: "byte list \<Rightarrow> byte list list" where
  "utf8_characters [] = []"
| "utf8_characters (b # bs) =
     (b # takeWhile is_continuation bs) # utf8_characters (dropWhile is_continuation bs)"
  by pat_completeness auto

termination
  by (relation "measure length") (auto simp: length_dropWhile_le less_Suc_eq_le)

text \<open>The characters, taken whole and in order, as long as they fit into \<open>n\<close> octets.\<close>

fun take_whole :: "nat \<Rightarrow> byte list list \<Rightarrow> byte list" where
  "take_whole n [] = []"
| "take_whole n (c # cs) = (if length c \<le> n then c @ take_whole (n - length c) cs else [])"

text \<open>
  \<open>buf.write(string, offset, 'utf8')\<close>: it throws when the offset is beyond the buffer;
  a string that does not fit is written as far as it fits, but no character in part.
\<close>

definition Buffer_write :: "Buffer \<Rightarrow> byte list \<Rightarrow> nat \<Rightarrow> error + Buffer" where
  "Buffer_write buf octets offset =
     (if offset \<le> length buf
      then Inr (write_at buf offset (take_whole (length buf - offset) (utf8_characters octets)))
      else Inl ERR_OUT_OF_RANGE)"

text \<open>
  \<open>buf.toString('utf8')\<close> on the octets \<open>buf\<close>: the string of the decoded characters.
  The decoder (the one of the WHATWG Encoding standard) is in the middle of a character
  when \<open>needed\<close> is not 0: it has \<open>seen\<close> the octets of the character so far and needs
  \<open>needed\<close> more, the next of them between \<open>lower\<close> and \<open>upper\<close>. An octet that cannot
  begin or continue a character, and the end of the octets in the middle of a
  character, give the character U+FFFD, whose octets are \<open>EF BF BD\<close>; the octet that
  could not continue a character is then read again as the first of a character.
\<close>

definition REPLACEMENT_CHARACTER :: "byte list" where
  "REPLACEMENT_CHARACTER = [0xEF, 0xBF, 0xBD]"

fun utf8_decode :: "nat \<Rightarrow> byte \<Rightarrow> byte \<Rightarrow> byte list \<Rightarrow> byte list \<Rightarrow> byte list" where
  "utf8_decode needed lower upper seen [] = (if needed = 0 then [] else REPLACEMENT_CHARACTER)"
| "utf8_decode needed lower upper seen (b # bs) =
     (if needed \<noteq> 0 \<and> lower \<le> b \<and> b \<le> upper then
        (if needed = 1 then seen @ [b] @ utf8_decode 0 0x80 0xBF [] bs
         else utf8_decode (needed - 1) 0x80 0xBF (seen @ [b]) bs)
      else
        (if needed \<noteq> 0 then REPLACEMENT_CHARACTER else []) @
        (if b \<le> 0x7F then b # utf8_decode 0 0x80 0xBF [] bs
         else if 0xC2 \<le> b \<and> b \<le> 0xDF then utf8_decode 1 0x80 0xBF [b] bs
         else if b = 0xE0 then utf8_decode 2 0xA0 0xBF [b] bs
         else if b = 0xED then utf8_decode 2 0x80 0x9F [b] bs
         else if 0xE1 \<le> b \<and> b \<le> 0xEF then utf8_decode 2 0x80 0xBF [b] bs
         else if b = 0xF0 then utf8_decode 3 0x90 0xBF [b] bs
         else if b = 0xF4 then utf8_decode 3 0x80 0x8F [b] bs
         else if 0xF1 \<le> b \<and> b \<le> 0xF3 then utf8_decode 3 0x80 0xBF [b] bs
         else REPLACEMENT_CHARACTER @ utf8_decode 0 0x80 0xBF [] bs))"

definition Buffer_toString :: "Buffer \<Rightarrow> byte list" where
  "Buffer_toString buf = utf8_decode 0 0x80 0xBF [] buf"

text \<open>\<open>buf.readUInt8(offset)\<close>, \<open>readUInt16BE\<close>, \<open>readUInt32BE\<close>, \<open>readBigUInt64BE\<close>.\<close>

definition readUIntBE :: "Buffer \<Rightarrow> nat \<Rightarrow> nat \<Rightarrow> error + nat" where
  "readUIntBE buf offset byteLength =
     (if offset + byteLength \<le> length buf
      then Inr (be_value (take byteLength (drop offset buf)))
      else Inl ERR_OUT_OF_RANGE)"

definition readUInt8 :: "Buffer \<Rightarrow> nat \<Rightarrow> error + nat" where
  "readUInt8 buf offset = readUIntBE buf offset 1"

definition readUInt16BE :: "Buffer \<Rightarrow> nat \<Rightarrow> error + nat" where
  "readUInt16BE buf offset = readUIntBE buf offset 2"

definition readUInt32BE :: "Buffer \<Rightarrow> nat \<Rightarrow> error + nat" where
  "readUInt32BE buf offset = readUIntBE buf offset 4"

definition readBigUInt64BE :: "Buffer \<Rightarrow> nat \<Rightarrow> error + nat" where
  "readBigUInt64BE buf offset = readUIntBE buf offset 8"

section \<open>BufferWriter and the frame helpers (proto/codec.ts)\<close>

definition EMPTY_FRAME_SIZE :: nat where "EMPTY_FRAME_SIZE = 8"
definition EMPTY_FRAME_METHOD_PAYLOAD_SIZE :: nat where "EMPTY_FRAME_METHOD_PAYLOAD_SIZE = 4"
definition EMPTY_FRAME_METHOD_SIZE :: nat where
  "EMPTY_FRAME_METHOD_SIZE = EMPTY_FRAME_SIZE + EMPTY_FRAME_METHOD_PAYLOAD_SIZE"
definition BUFFER_INC :: nat where "BUFFER_INC = 1024"

definition FRAME_TYPES_frame_method :: nat where "FRAME_TYPES_frame_method = 1"
definition FRAME_TYPES_frame_header :: nat where "FRAME_TYPES_frame_header = 2"
definition FRAME_TYPES_frame_body :: nat where "FRAME_TYPES_frame_body = 3"
definition FRAME_TYPES_frame_heartbeat :: nat where "FRAME_TYPES_frame_heartbeat = 8"
definition FRAME_CONST_frame_end :: nat where "FRAME_CONST_frame_end = 206"

text \<open>
  \<open>class BufferWriter\<close>: \<open>wbuffer\<close> is \<open>_buffer\<close>, \<open>woffset\<close> is \<open>_offset\<close>,
  \<open>dynamic\<close> selects \<open>safewritedynamic\<close> or \<open>safewritestatic\<close>, and \<open>wmem\<close> is the
  memory that \<open>Buffer.allocUnsafe\<close> reads. \<open>current_path\<close> only feeds error
  messages and is left out.
\<close>

record BufferWriter =
  wbuffer :: Buffer
  woffset :: nat
  dynamic :: bool
  wmem :: "nat \<Rightarrow> byte"

definition BufferWriter_new :: "(nat \<Rightarrow> byte) \<Rightarrow> nat \<Rightarrow> bool \<Rightarrow> BufferWriter" where
  "BufferWriter_new mem initial_size dyn =
     \<lparr> wbuffer = allocUnsafe mem initial_size, woffset = 0, dynamic = dyn, wmem = mem \<rparr>"

text \<open>
  \<open>safewrite(size, callback)\<close>. The callback is a write into \<open>_buffer\<close> at \<open>_offset\<close>;
  \<open>safewritedynamic\<close> first appends \<open>size + BUFFER_INC\<close> fresh octets when the write
  would pass the end.
\<close>

definition safewrite ::
  "nat \<Rightarrow> (Buffer \<Rightarrow> nat \<Rightarrow> error + Buffer) \<Rightarrow> BufferWriter \<Rightarrow> error + BufferWriter" where
  "safewrite sz callback this =
     (let offset = woffset this + sz;
          grown = (if dynamic this \<and> offset > length (wbuffer this)
                   then wbuffer this @ allocUnsafe (wmem this) (sz + BUFFER_INC)
                   else wbuffer this)
      in case callback grown (woffset this) of
           Inl e \<Rightarrow> Inl e
         | Inr b \<Rightarrow> Inr (this \<lparr> wbuffer := b, woffset := offset \<rparr>))"

definition BufferWriter_uint8 :: "nat \<Rightarrow> BufferWriter \<Rightarrow> error + BufferWriter" where
  "BufferWriter_uint8 val this = safewrite 1 (\<lambda>b off. writeUInt8 b val off) this"

definition BufferWriter_uint16 :: "nat \<Rightarrow> BufferWriter \<Rightarrow> error + BufferWriter" where
  "BufferWriter_uint16 val this = safewrite 2 (\<lambda>b off. writeUInt16BE b val off) this"

definition BufferWriter_uint32 :: "nat \<Rightarrow> BufferWriter \<Rightarrow> error + BufferWriter" where
  "BufferWriter_uint32 val this = safewrite 4 (\<lambda>b off. writeUInt32BE b val off) this"

definition BufferWriter_uint64 :: "nat \<Rightarrow> BufferWriter \<Rightarrow> error + BufferWriter" where
  "BufferWriter_uint64 val this = safewrite 8 (\<lambda>b off. writeBigUInt64BE b val off) this"

definition BufferWriter_boolean :: "bool \<Rightarrow> BufferWriter \<Rightarrow> error + BufferWriter" where
  "BufferWriter_boolean val this = BufferWriter_uint8 (if val then 1 else 0) this"

text \<open>
  \<open>shortstr(path, value)\<close> and \<open>longstr(path, value)\<close>: the length prefix, which is
  \<open>Buffer.byteLength(value, 'utf8')\<close>, then the string, inside one \<open>safewrite\<close>.
\<close>

definition BufferWriter_shortstr :: "byte list \<Rightarrow> BufferWriter \<Rightarrow> error + BufferWriter" where
  "BufferWriter_shortstr val this =
     safewrite (length val + 1)
       (\<lambda>b off. case writeUInt8 b (length val) off of
                   Inl e \<Rightarrow> Inl e
                 | Inr b' \<Rightarrow> Buffer_write b' val (off + 1)) this"

definition BufferWriter_longstr :: "byte list \<Rightarrow> BufferWriter \<Rightarrow> error + BufferWriter" where
  "BufferWriter_longstr val this =
     safewrite (length val + 4)
       (\<lambda>b off. case writeUInt32BE b (length val) off of
                   Inl e \<Rightarrow> Inl e
                 | Inr b' \<Rightarrow> Buffer_write b' val (off + 4)) this"

text \<open>\<open>skip(sz)\<close>: \<open>sz\<close> zero octets (\<open>writeUIntBE\<close> takes 1 to 6 octets).\<close>

definition BufferWriter_skip :: "nat \<Rightarrow> BufferWriter \<Rightarrow> error + BufferWriter" where
  "BufferWriter_skip sz this =
     safewrite sz
       (\<lambda>b off. if 1 \<le> sz \<and> sz \<le> 6 then writeUIntBE b 0 off sz
                 else Inl ERR_OUT_OF_RANGE) this"

text \<open>
  \<open>table(path, value)\<close>: four octets are left for the length (the offset moves without
  \<open>safewrite\<close>), \<open>tableitems\<close> writes the entries, and the length is patched in.
  \<open>tableitems\<close> is the encoder of the entries of the given \<open>value\<close>, a parameter here.
\<close>

definition BufferWriter_table ::
  "(BufferWriter \<Rightarrow> error + BufferWriter) \<Rightarrow> BufferWriter \<Rightarrow> error + BufferWriter" where
  "BufferWriter_table tableitems this =
     (let offset_length = woffset this;
          start = woffset this + 4
      in case tableitems (this \<lparr> woffset := start \<rparr>) of
           Inl e \<Rightarrow> Inl e
         | Inr this' \<Rightarrow>
             (case writeUInt32BE (wbuffer this') (woffset this' - start) offset_length of
                Inl e \<Rightarrow> Inl e
              | Inr b \<Rightarrow> Inr (this' \<lparr> wbuffer := b \<rparr>)))"

text \<open>\<open>framestart\<close>, \<open>methodstart\<close>, \<open>frameend\<close>, \<open>heartbeat\<close>, \<open>setframelength\<close>.\<close>

definition framestart :: "nat \<Rightarrow> nat \<Rightarrow> nat \<Rightarrow> BufferWriter \<Rightarrow> error + BufferWriter" where
  "framestart frame_type channel sz this =
     (case writeUInt8 (wbuffer this) frame_type 0 of
        Inl e \<Rightarrow> Inl e
      | Inr b1 \<Rightarrow>
     (case writeUInt16BE b1 channel 1 of
        Inl e \<Rightarrow> Inl e
      | Inr b2 \<Rightarrow>
     (case writeUInt32BE b2 sz 3 of
        Inl e \<Rightarrow> Inl e
      | Inr b3 \<Rightarrow> Inr (this \<lparr> wbuffer := b3, woffset := 7 \<rparr>))))"

definition methodstart :: "nat \<Rightarrow> nat \<Rightarrow> nat \<Rightarrow> BufferWriter \<Rightarrow> error + BufferWriter" where
  "methodstart channel sz method_id this =
     (case framestart FRAME_TYPES_frame_method channel sz this of
        Inl e \<Rightarrow> Inl e
      | Inr this1 \<Rightarrow>
     (case writeUInt32BE (wbuffer this1) method_id 7 of
        Inl e \<Rightarrow> Inl e
      | Inr b \<Rightarrow> Inr (this1 \<lparr> wbuffer := b, woffset := 11 \<rparr>)))"

definition frameend :: "BufferWriter \<Rightarrow> error + BufferWriter" where
  "frameend this = BufferWriter_uint8 FRAME_CONST_frame_end this"

definition heartbeat :: "BufferWriter \<Rightarrow> error + BufferWriter" where
  "heartbeat this =
     (case framestart FRAME_TYPES_frame_heartbeat 0 0 this of
        Inl e \<Rightarrow> Inl e
      | Inr this1 \<Rightarrow> frameend this1)"

text \<open>
  \<open>setframelength\<close> writes \<open>this.offset - EMPTY_FRAME_SIZE\<close>; a negative value is
  out of range for \<open>writeUInt32BE\<close>.
\<close>

definition setframelength :: "BufferWriter \<Rightarrow> error + BufferWriter" where
  "setframelength this =
     (if woffset this < EMPTY_FRAME_SIZE then Inl ERR_OUT_OF_RANGE
      else case writeUInt32BE (wbuffer this) (woffset this - EMPTY_FRAME_SIZE) 3 of
             Inl e \<Rightarrow> Inl e
           | Inr b \<Rightarrow> Inr (this \<lparr> wbuffer := b \<rparr>))"

text \<open>
  The socket, as far as the writers see it: whether \<open>readyState\<close> is \<open>'open'\<close>, and the
  chunks handed to \<open>socket.write\<close> so far. \<open>writeSocket\<close> sends the whole buffer of a
  static writer and the first \<open>offset\<close> octets of a dynamic one; on a socket that is
  not open it returns without writing.
\<close>

record Socket =
  isSocketOpened :: bool
  written :: "Buffer list"

definition writeSocket :: "Socket \<Rightarrow> BufferWriter \<Rightarrow> Socket" where
  "writeSocket socket writer =
     (if \<not> isSocketOpened socket then socket
      else
        (let buffer = (if dynamic writer then take (woffset writer) (wbuffer writer)
                       else wbuffer writer)
         in socket \<lparr> written := written socket @ [buffer] \<rparr>))"

definition writeVoid :: "(nat \<Rightarrow> byte) \<Rightarrow> nat \<Rightarrow> Socket \<Rightarrow> nat \<Rightarrow> error + Socket" where
  "writeVoid mem method_id socket channel =
     (let writer = BufferWriter_new mem EMPTY_FRAME_METHOD_SIZE False in
      case methodstart channel EMPTY_FRAME_METHOD_PAYLOAD_SIZE method_id writer of
        Inl e \<Rightarrow> Inl e
      | Inr w1 \<Rightarrow>
     (case frameend w1 of
        Inl e \<Rightarrow> Inl e
      | Inr w2 \<Rightarrow> Inr (writeSocket socket w2)))"

definition writeBodyOne :: "(nat \<Rightarrow> byte) \<Rightarrow> Socket \<Rightarrow> nat \<Rightarrow> Buffer \<Rightarrow> error + Socket" where
  "writeBodyOne mem socket channel body =
     (let writer = BufferWriter_new mem (EMPTY_FRAME_SIZE + length body) False in
      case framestart FRAME_TYPES_frame_body channel (length body) writer of
        Inl e \<Rightarrow> Inl e
      | Inr w1 \<Rightarrow>
     (case Buffer_set (wbuffer w1) body (woffset w1) of
        Inl e \<Rightarrow> Inl e
      | Inr b1 \<Rightarrow>
     (case writeUInt8 b1 FRAME_CONST_frame_end (woffset w1 + length body) of
        Inl e \<Rightarrow> Inl e
      | Inr b2 \<Rightarrow> Inr (writeSocket socket (w1 \<lparr> wbuffer := b2 \<rparr>)))))"

definition writeHeartbeat :: "(nat \<Rightarrow> byte) \<Rightarrow> Socket \<Rightarrow> error + Socket" where
  "writeHeartbeat mem socket =
     (let writer = BufferWriter_new mem EMPTY_FRAME_SIZE False in
      case heartbeat writer of
        Inl e \<Rightarrow> Inl e
      | Inr w \<Rightarrow> Inr (writeSocket socket w))"

text \<open>
  The shape of every generated call of proto/api.ts that writes a dynamically sized
  method frame (for example \<open>API.exchange_declare\<close>, \<open>API.basic_consume\<close>):
  \<open>new BufferWriter(initial_size, true)\<close>, \<open>methodstart(channel, 0, id)\<close>, the
  argument writes \<open>encode\<close>, \<open>frameend()\<close>, \<open>setframelength()\<close>, \<open>writeSocket\<close>.
\<close>

definition API_dynamic_method ::
  "(nat \<Rightarrow> byte) \<Rightarrow> nat \<Rightarrow> nat \<Rightarrow> (BufferWriter \<Rightarrow> error + BufferWriter)
     \<Rightarrow> Socket \<Rightarrow> nat \<Rightarrow> error + Socket" where
  "API_dynamic_method mem initial_size method_id encode socket channel =
     (let writer = BufferWriter_new mem initial_size True in
      case methodstart channel 0 method_id writer of
        Inl e \<Rightarrow> Inl e
      | Inr w1 \<Rightarrow>
     (case encode w1 of
        Inl e \<Rightarrow> Inl e
      | Inr w2 \<Rightarrow>
     (case frameend w2 of
        Inl e \<Rightarrow> Inl e
      | Inr w3 \<Rightarrow>
     (case setframelength w3 of
        Inl e \<Rightarrow> Inl e
      | Inr w4 \<Rightarrow> Inr (writeSocket socket w4)))))"

text \<open>
  What the envelope of a wire frame says: the payload size is the big-endian number in
  the four octets at offset 3; the frame ends with \<open>frame_end\<close>.
\<close>

definition frame_payload_size :: "Buffer \<Rightarrow> nat" where
  "frame_payload_size frame = be_value (take 4 (drop 3 frame))"

definition frame_payload :: "Buffer \<Rightarrow> Buffer" where
  "frame_payload frame = take (length frame - 8) (drop 7 frame)"

text \<open>
  The seven octets that \<open>framestart\<close> writes: \<open>frame_type\<close> in one octet, \<open>channel\<close>
  in two, \<open>size\<close> in four.
\<close>

definition frame_envelope :: "nat \<Rightarrow> nat \<Rightarrow> nat \<Rightarrow> Buffer" where
  "frame_envelope frame_type channel sz =
     be_bytes 1 frame_type @ be_bytes 2 channel @ be_bytes 4 sz"

text \<open>
  The envelope property of an emitted frame: seven octets of envelope, the payload and
  the frame-end octet, \<open>8 + payload_size\<close> octets in all; the size field gives the
  length of the payload; the last octet is \<open>frame_end\<close>.
\<close>

definition frame_well_formed :: "Buffer \<Rightarrow> bool" where
  "frame_well_formed frame \<longleftrightarrow>
     length frame = 8 + frame_payload_size frame
     \<and> length (frame_payload frame) = frame_payload_size frame
     \<and> last frame = of_nat FRAME_CONST_frame_end"

text \<open>An open socket that has written nothing, for the concrete evaluations below.\<close>

definition socket0 :: Socket where
  "socket0 = \<lparr> isSocketOpened = True, written = [] \<rparr>"

text \<open>
  \<open>dynamic\<close> is declared \<open>public readonly\<close>: no method of the writer assigns it, so an
  argument encoder built from the writer's methods keeps it.
\<close>

definition keeps_dynamic :: "(BufferWriter \<Rightarrow> error + BufferWriter) \<Rightarrow> bool" where
  "keeps_dynamic encode \<longleftrightarrow> (\<forall>w w'. encode w = Inr w' \<longrightarrow> dynamic w' = dynamic w)"

section \<open>BufferReader and the property codec (proto/codec.ts)\<close>

text \<open>
  \<open>class BufferReader\<close>: \<open>rbuffer\<close> is \<open>_buffer\<close>, \<open>roffset\<close> is \<open>_offset\<close>;
  \<open>current_path\<close> only feeds error messages and is left out. A read returns the value
  with the advanced reader, or the \<open>RangeError\<close> that the \<open>Buffer\<close> read throws.
\<close>

record BufferReader =
  rbuffer :: Buffer
  roffset :: nat

definition BufferReader_new :: "Buffer \<Rightarrow> BufferReader" where
  "BufferReader_new buf = \<lparr> rbuffer = buf, roffset = 0 \<rparr>"

definition BufferReader_uint8 :: "BufferReader \<Rightarrow> error + (nat \<times> BufferReader)" where
  "BufferReader_uint8 this =
     (case readUInt8 (rbuffer this) (roffset this) of
        Inl e \<Rightarrow> Inl e
      | Inr v \<Rightarrow> Inr (v, this \<lparr> roffset := roffset this + 1 \<rparr>))"

definition BufferReader_uint16 :: "BufferReader \<Rightarrow> error + (nat \<times> BufferReader)" where
  "BufferReader_uint16 this =
     (case readUInt16BE (rbuffer this) (roffset this) of
        Inl e \<Rightarrow> Inl e
      | Inr v \<Rightarrow> Inr (v, this \<lparr> roffset := roffset this + 2 \<rparr>))"

definition BufferReader_uint32 :: "BufferReader \<Rightarrow> error + (nat \<times> BufferReader)" where
  "BufferReader_uint32 this =
     (case readUInt32BE (rbuffer this) (roffset this) of
        Inl e \<Rightarrow> Inl e
      | Inr v \<Rightarrow> Inr (v, this \<lparr> roffset := roffset this + 4 \<rparr>))"

definition BufferReader_uint64 :: "BufferReader \<Rightarrow> error + (nat \<times> BufferReader)" where
  "BufferReader_uint64 this =
     (case readBigUInt64BE (rbuffer this) (roffset this) of
        Inl e \<Rightarrow> Inl e
      | Inr v \<Rightarrow> Inr (v, this \<lparr> roffset := roffset this + 8 \<rparr>))"

text \<open>
  \<open>shortstr(path)\<close>: the length octet, then \<open>buffer.toString('utf8', offset, offset +
  length)\<close>, which stops at the end of the buffer without throwing.
\<close>

definition BufferReader_shortstr :: "BufferReader \<Rightarrow> error + (byte list \<times> BufferReader)" where
  "BufferReader_shortstr this =
     (case BufferReader_uint8 this of
        Inl e \<Rightarrow> Inl e
      | Inr (len, this1) \<Rightarrow>
          (let offset = roffset this1 + len in
           Inr (Buffer_toString (take len (drop (roffset this1) (rbuffer this1))),
                this1 \<lparr> roffset := offset \<rparr>)))"

definition BufferReader_skip :: "nat \<Rightarrow> BufferReader \<Rightarrow> BufferReader" where
  "BufferReader_skip sz this = this \<lparr> roffset := roffset this + sz \<rparr>"

text \<open>\<open>body(size)\<close>: \<open>buffer.subarray(offset, offset + size)\<close>.\<close>

definition BufferReader_body :: "nat \<Rightarrow> BufferReader \<Rightarrow> Buffer \<times> BufferReader" where
  "BufferReader_body sz this =
     (let end = roffset this + sz in
      (take sz (drop (roffset this) (rbuffer this)), this \<lparr> roffset := end \<rparr>))"

text \<open>
  \<open>BITS_BASIC\<close>: the 16 masks \<open>1 << 15\<close> down to \<open>1 << 0\<close>. An index past the table
  reads \<open>undefined\<close>, which the bitwise operators take as 0.
\<close>

definition BITS_BASIC :: "nat \<Rightarrow> nat" where
  "BITS_BASIC i = (if i < 16 then 2 ^ (15 - i) else 0)"

text \<open>
  \<open>properties(path, items, ...)\<close> calls the method an item names, \<open>this[item.method]\<close>.
  The methods modelled are the integer and short-string ones; a property value is a
  number or a string. The objects \<open>source\<close> and \<open>destination\<close> are association lists
  from property key to value, in insertion order. A value of the wrong type for its
  method is a \<open>TypeError\<close> in the model (TypeScript's types exclude it).
\<close>

datatype codec_method = m_uint8 | m_uint16 | m_uint32 | m_uint64 | m_shortstr

datatype property_value = Number nat | String "byte list"

definition BufferReader_call ::
  "codec_method \<Rightarrow> BufferReader \<Rightarrow> error + (property_value \<times> BufferReader)" where
  "BufferReader_call m this =
     (case m of
        m_uint8 \<Rightarrow> map_sum (\<lambda>e. e) (\<lambda>(v, r). (Number v, r)) (BufferReader_uint8 this)
      | m_uint16 \<Rightarrow> map_sum (\<lambda>e. e) (\<lambda>(v, r). (Number v, r)) (BufferReader_uint16 this)
      | m_uint32 \<Rightarrow> map_sum (\<lambda>e. e) (\<lambda>(v, r). (Number v, r)) (BufferReader_uint32 this)
      | m_uint64 \<Rightarrow> map_sum (\<lambda>e. e) (\<lambda>(v, r). (Number v, r)) (BufferReader_uint64 this)
      | m_shortstr \<Rightarrow> map_sum (\<lambda>e. e) (\<lambda>(v, r). (String v, r)) (BufferReader_shortstr this))"

definition BufferWriter_call ::
  "codec_method \<Rightarrow> property_value \<Rightarrow> BufferWriter \<Rightarrow> error + BufferWriter" where
  "BufferWriter_call m v this =
     (case (m, v) of
        (m_uint8, Number n) \<Rightarrow> BufferWriter_uint8 n this
      | (m_uint16, Number n) \<Rightarrow> BufferWriter_uint16 n this
      | (m_uint32, Number n) \<Rightarrow> BufferWriter_uint32 n this
      | (m_uint64, Number n) \<Rightarrow> BufferWriter_uint64 n this
      | (m_shortstr, String s) \<Rightarrow> BufferWriter_shortstr s this
      | _ \<Rightarrow> Inl (JsError ''TypeError''))"

text \<open>
  \<open>BufferReader.properties\<close>: the flag is read first; then, for each item whose bit is
  set, its value. The loop runs over \<open>items\<close> from index \<open>i\<close>.
\<close>

fun reader_properties_loop ::
  "nat \<Rightarrow> nat \<Rightarrow> (string \<times> codec_method) list \<Rightarrow> (string \<times> property_value) list
     \<Rightarrow> BufferReader \<Rightarrow> error + ((string \<times> property_value) list \<times> BufferReader)" where
  "reader_properties_loop flag i [] destination this = Inr (destination, this)"
| "reader_properties_loop flag i ((key, m) # items) destination this =
     (if flag AND BITS_BASIC i = 0
      then reader_properties_loop flag (i + 1) items destination this
      else case BufferReader_call m this of
             Inl e \<Rightarrow> Inl e
           | Inr (v, this') \<Rightarrow>
               reader_properties_loop flag (i + 1) items (map_set destination key v) this')"

definition BufferReader_properties ::
  "(string \<times> codec_method) list \<Rightarrow> (string \<times> property_value) list \<Rightarrow> BufferReader
     \<Rightarrow> error + ((string \<times> property_value) list \<times> BufferReader)" where
  "BufferReader_properties items destination this =
     (case BufferReader_uint16 this of
        Inl e \<Rightarrow> Inl e
      | Inr (flag, this1) \<Rightarrow> reader_properties_loop flag 0 items destination this1)"

text \<open>
  \<open>BufferWriter.properties\<close>: for each item whose key is in \<open>source\<close>, its bit is set
  and its value is written; the flag is written by \<open>this.uint16\<close> after the loop.
\<close>

fun writer_properties_loop ::
  "nat \<Rightarrow> nat \<Rightarrow> (string \<times> codec_method) list \<Rightarrow> (string \<times> property_value) list
     \<Rightarrow> BufferWriter \<Rightarrow> error + (nat \<times> BufferWriter)" where
  "writer_properties_loop flag i [] source this = Inr (flag, this)"
| "writer_properties_loop flag i ((key, m) # items) source this =
     (case map_of source key of
        None \<Rightarrow> writer_properties_loop flag (i + 1) items source this
      | Some v \<Rightarrow>
          (case BufferWriter_call m v this of
             Inl e \<Rightarrow> Inl e
           | Inr this' \<Rightarrow>
               writer_properties_loop (flag OR BITS_BASIC i) (i + 1) items source this'))"

definition BufferWriter_properties ::
  "(string \<times> codec_method) list \<Rightarrow> (string \<times> property_value) list \<Rightarrow> BufferWriter
     \<Rightarrow> error + BufferWriter" where
  "BufferWriter_properties items source this =
     (case writer_properties_loop 0 0 items source this of
        Inl e \<Rightarrow> Inl e
      | Inr (flag, this') \<Rightarrow> BufferWriter_uint16 flag this')"

text \<open>
  Writing \<open>source\<close> with \<open>BufferWriter.properties\<close> into a fresh static writer of
  \<open>sz\<close> octets and reading the octets back with \<open>BufferReader.properties\<close> into an
  empty object.
\<close>

definition properties_roundtrip ::
  "(nat \<Rightarrow> byte) \<Rightarrow> nat \<Rightarrow> (string \<times> codec_method) list \<Rightarrow> (string \<times> property_value) list
     \<Rightarrow> error + (string \<times> property_value) list" where
  "properties_roundtrip mem sz items source =
     (case BufferWriter_properties items source (BufferWriter_new mem sz False) of
        Inl e \<Rightarrow> Inl e
      | Inr writer \<Rightarrow>
          (case BufferReader_properties items [] (BufferReader_new (wbuffer writer)) of
             Inl e \<Rightarrow> Inl e
           | Inr (destination, reader) \<Rightarrow> Inr destination))"

section \<open>DecodeStream, the frame demuxer (lib/channel.ts)\<close>

text \<open>
  What \<open>_decode\<close> hands to a channel: the calls \<open>channel.handle_method(method_id,
  args)\<close>, \<open>channel.handle_header(body_size, properties)\<close>,
  \<open>channel.handle_body(body)\<close> and \<open>channel.handle_heartbeat()\<close>, each with the id of
  the channel it is made on (0 is the connection).
\<close>

datatype 'a dispatch =
  handle_method nat nat 'a
  | handle_header nat nat 'a
  | handle_body nat Buffer
  | handle_heartbeat nat

text \<open>
  \<open>class DecodeStream\<close>: \<open>cache\<close> is the carry-over buffer (\<open>None\<close> when the field is
  absent), \<open>decode_is_init\<close> says whether \<open>this.decode\<close> still is \<open>_init\<close>, and
  \<open>dispatched\<close> records the calls made on channel_ids, in order.
\<close>

record 'a DecodeStream =
  cache :: "Buffer option"
  decode_is_init :: bool
  dispatched :: "'a dispatch list"

definition DecodeStream_new :: "'a DecodeStream" where
  "DecodeStream_new = \<lparr> cache = None, decode_is_init = True, dispatched = [] \<rparr>"

text \<open>
  A decoder of \<open>DECODERS\<close> reads its arguments from the buffer at an offset and moves
  the reader forward: it yields the arguments with the number of octets it consumed,
  or throws.
\<close>

type_synonym 'a decoders = "nat \<Rightarrow> (Buffer \<Rightarrow> nat \<Rightarrow> error + ('a \<times> nat)) option"

text \<open>The object \<open>{ frame_type, channel, size }\<close> that \<open>_decodeframestart\<close> returns.\<close>

record frame_start =
  fs_frame_type :: nat
  fs_channel :: nat
  fs_size :: nat

definition decodeframestart :: "BufferReader \<Rightarrow> error + (frame_start \<times> BufferReader)" where
  "decodeframestart reader =
     (case BufferReader_uint8 reader of
        Inl e \<Rightarrow> Inl e
      | Inr (ft, r1) \<Rightarrow>
     (case BufferReader_uint16 r1 of
        Inl e \<Rightarrow> Inl e
      | Inr (ch, r2) \<Rightarrow>
     (case BufferReader_uint32 r2 of
        Inl e \<Rightarrow> Inl e
      | Inr (sz, r3) \<Rightarrow> Inr (\<lparr> fs_frame_type = ft, fs_channel = ch, fs_size = sz \<rparr>, r3))))"

definition BASIC_PROPERTIES_METHOD :: nat where
  "BASIC_PROPERTIES_METHOD = push_bit 16 METHODS_basic_properties"

text \<open>
  The body of one turn of the \<open>while\<close> loop of \<open>_decode\<close>, from the frame-end check to
  the dispatch: it returns the call made and the reader's offset after it.
  \<open>channel_ids\<close> are the keys of \<open>connection.channels\<close>.
\<close>

definition decode_frame ::
  "'a decoders \<Rightarrow> nat list \<Rightarrow> Buffer \<Rightarrow> frame_start \<Rightarrow> nat \<Rightarrow> error + ('a dispatch \<times> nat)" where
  "decode_frame DECODERS channel_ids buffer fs offset =
     (case readUInt8 buffer (fs_size fs + offset) of
        Inl e \<Rightarrow> Inl e
      | Inr frame_end \<Rightarrow>
     (if frame_end \<noteq> FRAME_CONST_frame_end
      then Inl (RangeError (''Invalid frame end ['' @ number_toString frame_end @ '']''))
      else if fs_channel fs \<noteq> 0 \<and> fs_channel fs \<notin> set channel_ids
      then Inl (HardError 0 channel_error ''Unknown channel'')
      else if fs_frame_type fs = FRAME_TYPES_frame_method then
        (case readUInt32BE buffer offset of
           Inl e \<Rightarrow> Inl e
         | Inr method_id \<Rightarrow>
        (case DECODERS method_id of
           None \<Rightarrow> Inl (HardError method_id frame_error ''Unknown method_id'')
         | Some decoder \<Rightarrow>
        (case decoder buffer (offset + 4) of
           Inl e \<Rightarrow> Inl (HardError method_id frame_error ''Decode arguments error'')
         | Inr (args, n) \<Rightarrow> Inr (handle_method (fs_channel fs) method_id args, offset + 4 + n))))
      else if fs_frame_type fs = FRAME_TYPES_frame_body then
        Inr (handle_body (fs_channel fs) (take (fs_size fs) (drop offset buffer)), offset + fs_size fs)
      else if fs_frame_type fs = FRAME_TYPES_frame_header then
        (case readUInt16BE buffer offset of
           Inl e \<Rightarrow> Inl e
         | Inr class_id \<Rightarrow>
        (case DECODERS class_id of
           None \<Rightarrow> Inl (HardError (push_bit 16 class_id) frame_error ''Unknown header class_id'')
         | Some decoder \<Rightarrow>
        (case readBigUInt64BE buffer (offset + 4) of
           Inl e \<Rightarrow> Inl e
         | Inr body_size \<Rightarrow>
        (case decoder buffer (offset + 12) of
           Inl e \<Rightarrow> Inl (HardError BASIC_PROPERTIES_METHOD frame_error ''Decode properties error'')
         | Inr (properties, n) \<Rightarrow>
             Inr (handle_header (fs_channel fs) body_size properties, offset + 12 + n)))))
      else if fs_frame_type fs = FRAME_TYPES_frame_heartbeat then
        Inr (handle_heartbeat (fs_channel fs), offset)
      else Inl (HardError 0 frame_error ''Unknown frame type'')))"

text \<open>
  \<open>_decode\<close> from the head of its \<open>while\<close> loop, with \<open>frame_start\<close> read and the
  reader at \<open>offset\<close>. The result is the error thrown, if any, with the stream as the
  code leaves it. \<open>unread\<close> is an integer: it is negative when a decoder has read past
  the end, and then \<open>subarray\<close> gives the empty buffer.
\<close>

function decode_loop ::
  "'a decoders \<Rightarrow> nat list \<Rightarrow> Buffer \<Rightarrow> frame_start \<Rightarrow> nat \<Rightarrow> 'a DecodeStream
     \<Rightarrow> error option \<times> 'a DecodeStream" where
  "decode_loop DECODERS channel_ids buffer fs offset this =
     (if fs_size fs + 1 + offset \<le> length buffer then
        (case decode_frame DECODERS channel_ids buffer fs offset of
           Inl e \<Rightarrow> (Some e, this)
         | Inr (call, offset1) \<Rightarrow>
             (let this1 = this \<lparr> dispatched := dispatched this @ [call] \<rparr>;
                  offset2 = offset1 + 1;
                  unread = int (length buffer) - int offset2
              in if unread < int EMPTY_FRAME_SIZE then
                   (if unread \<noteq> 0
                    then (None, this1 \<lparr> cache := Some (drop offset2 buffer) \<rparr>)
                    else (None, this1))
                 else
                   (case decodeframestart \<lparr> rbuffer = buffer, roffset = offset2 \<rparr> of
                      Inl e \<Rightarrow> (Some e, this1)
                    | Inr (fs', reader) \<Rightarrow>
                        decode_loop DECODERS channel_ids buffer fs' (roffset reader) this1)))
      else if length buffer = offset
      then (None, this \<lparr> cache := Some (drop offset buffer) \<rparr>)
      else (None, this))"
  by pat_completeness auto

lemma decode_frame_offset:
  "decode_frame DECODERS channel_ids buffer fs offset = Inr (call, offset1) \<Longrightarrow> offset \<le> offset1"
  by (auto simp: decode_frame_def split: sum.splits if_splits option.splits)

lemma decodeframestart_offset:
  "decodeframestart reader = Inr (fs, reader') \<Longrightarrow> roffset reader' = roffset reader + 7"
  by (auto simp: decodeframestart_def BufferReader_uint8_def BufferReader_uint16_def
      BufferReader_uint32_def split: sum.splits)

termination decode_loop
proof (relation "measure (\<lambda>(DECODERS, channel_ids, buffer, fs, offset, this). length buffer - offset)")
  show "wf (measure (\<lambda>(DECODERS, channel_ids, buffer, fs, offset, this). length buffer - offset))"
    by simp
next
  fix DECODERS :: "'a decoders" and channel_ids buffer fs offset and this :: "'a DecodeStream"
    and x2 call offset1 this1 offset2 unread x2a fs' reader
  assume "fs_size fs + 1 + offset \<le> length buffer"
    and df: "decode_frame DECODERS channel_ids buffer fs offset = Inr x2" and "(call, offset1) = x2"
    and "offset2 = offset1 + 1" and "unread = int (length buffer) - int offset2"
    and "\<not> unread < int EMPTY_FRAME_SIZE"
    and ds: "decodeframestart \<lparr> rbuffer = buffer, roffset = offset2 \<rparr> = Inr x2a"
    and "(fs', reader) = x2a"
  then have "offset \<le> offset1" "roffset reader = offset1 + 8" "offset1 + 9 \<le> length buffer"
    using decode_frame_offset [of DECODERS channel_ids buffer fs offset call offset1]
      decodeframestart_offset [of "\<lparr> rbuffer = buffer, roffset = offset2 \<rparr>" fs' reader]
    by (auto simp: EMPTY_FRAME_SIZE_def)
  then show "((DECODERS, channel_ids, buffer, fs', roffset reader, this1),
              (DECODERS, channel_ids, buffer, fs, offset, this))
             \<in> measure (\<lambda>(DECODERS, channel_ids, buffer, fs, offset, this). length buffer - offset)"
    by simp
qed

declare decode_loop.simps [simp del]

text \<open>\<open>_decode(buffer)\<close>: a new reader, the first frame start, the loop.\<close>

definition DecodeStream_decode :: "'a decoders \<Rightarrow> nat list \<Rightarrow> Buffer \<Rightarrow> 'a DecodeStream
     \<Rightarrow> error option \<times> 'a DecodeStream" where
  "DecodeStream_decode DECODERS channel_ids buffer this =
     (case decodeframestart (BufferReader_new buffer) of
        Inl e \<Rightarrow> (Some e, this)
      | Inr (fs, reader) \<Rightarrow> decode_loop DECODERS channel_ids buffer fs (roffset reader) this)"

text \<open>
  \<open>_init(buffer)\<close>: a first buffer of exactly 8 octets is taken for the server's protocol
  header and rejected; otherwise \<open>this.decode\<close> becomes \<open>_decode\<close>.
\<close>

definition DecodeStream_init :: "'a decoders \<Rightarrow> nat list \<Rightarrow> Buffer \<Rightarrow> 'a DecodeStream
     \<Rightarrow> error option \<times> 'a DecodeStream" where
  "DecodeStream_init DECODERS channel_ids buffer this =
     (if length buffer = 8
      then (Some (HardError METHODS_connection_start not_implemented
                    ''Protocol version not supported''), this)
      else DecodeStream_decode DECODERS channel_ids buffer (this \<lparr> decode_is_init := False \<rparr>))"

text \<open>
  \<open>_writevAsync(chunks)\<close>: the cache goes in front of the chunks and is deleted; fewer
  than \<open>EMPTY_FRAME_SIZE\<close> octets are cached; otherwise \<open>this.decode(buffer)\<close>. (The
  refresh of \<open>connection.heartbeat\<close> is left out.)
\<close>

definition DecodeStream_writevAsync ::
  "'a decoders \<Rightarrow> nat list \<Rightarrow> Buffer list \<Rightarrow> 'a DecodeStream
     \<Rightarrow> error option \<times> 'a DecodeStream" where
  "DecodeStream_writevAsync DECODERS channel_ids chunks this =
     (let buffers = (case cache this of Some c \<Rightarrow> c # chunks | None \<Rightarrow> chunks);
          this1 = this \<lparr> cache := None \<rparr>;
          buffer = concat buffers
      in if length buffer < EMPTY_FRAME_SIZE then (None, this1 \<lparr> cache := Some buffer \<rparr>)
         else if decode_is_init this1 then DecodeStream_init DECODERS channel_ids buffer this1
         else DecodeStream_decode DECODERS channel_ids buffer this1)"

text \<open>
  The socket delivers its byte stream as a sequence of writes, each a batch of chunks;
  the first error ends the stream.
\<close>

fun DecodeStream_writes ::
  "'a decoders \<Rightarrow> nat list \<Rightarrow> Buffer list list \<Rightarrow> 'a DecodeStream
     \<Rightarrow> error option \<times> 'a DecodeStream" where
  "DecodeStream_writes DECODERS channel_ids [] this = (None, this)"
| "DecodeStream_writes DECODERS channel_ids (chunks # rest) this =
     (case DecodeStream_writevAsync DECODERS channel_ids chunks this of
        (Some e, this') \<Rightarrow> (Some e, this')
      | (None, this') \<Rightarrow> DecodeStream_writes DECODERS channel_ids rest this')"

text \<open>A body frame for channel 1 with the two payload octets \<open>AA BB\<close>.\<close>

definition body_frame_AA_BB :: Buffer where
  "body_frame_AA_BB = [3, 0, 1, 0, 0, 0, 2, 0xAA, 0xBB, 0xCE]"

section \<open>ChannelAbstract: call_api, handle_method, destroy (lib/channel.ts)\<close>

text \<open>
  Each \<open>call_api\<close> with expected replies allocates, in its \<open>process.nextTick\<close>
  callback, one \<open>UniqueId\<close> object \<open>id\<close> and one \<open>callback\<close> closure over \<open>id\<close>,
  \<open>responses\<close> and the flag \<open>called\<close>. The closures live in a heap, \<open>closures\<close>,
  addressed by a reference: the index at which the closure was allocated, so a smaller
  reference is an earlier registration. A \<open>Map<UniqueId, Callback>\<close> is keyed by
  object identity and each key is stored with the callback allocated with it, so the
  map is the list of the references of its entries, in insertion order.
\<close>

type_synonym ref = nat

record closure =
  cl_id :: UniqueId
  cl_responses :: "nat list"
  cl_called :: bool

text \<open>
  How the promise of a \<open>call_api\<close> settles: \<open>resolve({ method_id, args })\<close> or
  \<open>reject(error)\<close>.
\<close>

datatype 'a settlement = resolve nat 'a | reject error

text \<open>
  The calls a channel makes on its surroundings, recorded in order: the promise of the
  \<open>call_api\<close> with closure \<open>r\<close> settles; \<open>send()\<close> of that \<open>call_api\<close> is invoked;
  a registered handler is invoked with the arguments; \<open>this.fatal(error)\<close>;
  \<open>this.call_close(error)\<close>; \<open>this.connection.channels.delete(this.channel)\<close>.
\<close>

datatype 'a effect =
  Settled ref "'a settlement"
  | Send ref
  | Handler nat 'a
  | Fatal error
  | Call_close "error option"
  | Channels_delete nat

text \<open>
  \<open>class ChannelAbstract\<close>. \<open>request_callbacks\<close> is the
  \<open>Map<number, Map<UniqueId, Callback>>\<close>; \<open>handlers\<close> are the keys of the handler map
  (what a handler does is its own function).
\<close>

record 'a ChannelAbstract =
  channel :: nat
  request_callbacks :: "(nat \<times> ref list) list"
  handlers :: "nat list"
  destroyed :: bool
  closed :: bool
  closures :: "closure list"
  effects :: "'a effect list"

definition ChannelAbstract_new :: "nat \<Rightarrow> nat list \<Rightarrow> 'a ChannelAbstract" where
  "ChannelAbstract_new n hs =
     \<lparr> channel = n, request_callbacks = [], handlers = hs, destroyed = False, closed = False,
       closures = [], effects = [] \<rparr>"

text \<open>\<open>map.get(k).f()\<close> on the value stored under a key: the value is replaced in place.\<close>

fun map_modify :: "'k \<Rightarrow> ('v \<Rightarrow> 'v) \<Rightarrow> ('k \<times> 'v) list \<Rightarrow> ('k \<times> 'v) list" where
  "map_modify k f [] = []"
| "map_modify k f ((k', v) # m) = (if k' = k then (k', f v) # m else (k', v) # map_modify k f m)"

text \<open>The entries of \<open>request_callbacks.get(method_id)\<close>; none when the key is absent.\<close>

definition pending :: "nat \<Rightarrow> ('a, 'z) ChannelAbstract_scheme \<Rightarrow> ref list" where
  "pending method_id this =
     (case map_of (request_callbacks this) method_id of None \<Rightarrow> [] | Some callbacks \<Rightarrow> callbacks)"

text \<open>
  \<open>clear\<close>: for each \<open>method_id\<close> of \<open>responses\<close>, \<open>callbacks.delete(id)\<close> on
  \<open>request_callbacks.get(method_id)\<close>. The map is there: the registration that made
  the callback reachable created it, and nothing removes a key of \<open>request_callbacks\<close>.
  \<open>delete\<close> removes the entry of the key, of which a \<open>Map\<close> holds at most one.
\<close>

fun clear :: "nat list \<Rightarrow> ref \<Rightarrow> (nat \<times> ref list) list \<Rightarrow> (nat \<times> ref list) list" where
  "clear [] r rc = rc"
| "clear (method_id # responses) r rc = clear responses r (map_modify method_id (removeAll r) rc)"

text \<open>
  \<open>callback(error, result)\<close> of the closure \<open>r\<close>: nothing when \<open>called\<close>; otherwise
  \<open>called = true\<close>, \<open>clear()\<close>, and the promise settles.
\<close>

definition callback ::
  "ref \<Rightarrow> 'a settlement \<Rightarrow> ('a, 'z) ChannelAbstract_scheme \<Rightarrow> ('a, 'z) ChannelAbstract_scheme" where
  "callback r outcome this =
     (if r < length (closures this) \<and> \<not> cl_called (closures this ! r) then
        this \<lparr> closures := (closures this) [r := (closures this ! r) \<lparr> cl_called := True \<rparr>],
               request_callbacks := clear (cl_responses (closures this ! r)) r (request_callbacks this),
               effects := effects this @ [Settled r outcome] \<rparr>
      else this)"

text \<open>
  \<open>callbacks.set(id, callback)\<close>: a new key goes last, a key already present keeps its
  place.
\<close>

definition callbacks_set :: "ref \<Rightarrow> ref list \<Rightarrow> ref list" where
  "callbacks_set r callbacks = (if r \<in> set callbacks then callbacks else callbacks @ [r])"

text \<open>
  The registration loop of \<open>call_api\<close>: for each \<open>method_id\<close> of \<open>responses\<close> the map
  is fetched, or created and stored in \<open>request_callbacks\<close>, and the entry is set.
\<close>

fun register :: "nat list \<Rightarrow> ref \<Rightarrow> (nat \<times> ref list) list \<Rightarrow> (nat \<times> ref list) list" where
  "register [] r rc = rc"
| "register (method_id # responses) r rc =
     register responses r
       (case map_of rc method_id of
          None \<Rightarrow> rc @ [(method_id, callbacks_set r [])]
        | Some callbacks \<Rightarrow> map_modify method_id (callbacks_set r) rc)"

text \<open>
  \<open>call_api(responses, send)\<close> with \<open>responses\<close> not empty does nothing but schedule
  this, the body of its \<open>process.nextTick\<close> callback, run at millisecond \<open>now\<close>:
  \<open>id = UniqueFactory.generate()\<close>, the registration, \<open>send()\<close>. A later failure of
  \<open>send\<close> is the separate step \<open>callback r (reject error)\<close>.
\<close>

definition call_api_tick ::
  "UniqueFactory \<Rightarrow> int \<Rightarrow> nat list \<Rightarrow> ('a, 'z) ChannelAbstract_scheme
     \<Rightarrow> ('a, 'z) ChannelAbstract_scheme" where
  "call_api_tick factory now responses this =
     (let uid = fst (generate factory now);
          r = length (closures this)
      in this \<lparr> closures := closures this
                   @ [\<lparr> cl_id = uid, cl_responses = responses, cl_called = False \<rparr>],
                request_callbacks := register responses r (request_callbacks this),
                effects := effects this @ [Send r] \<rparr>)"

text \<open>
  \<open>Array.from(callbacks.keys()).sort()\<close> on \<open>UniqueId\<close> objects: the default sort
  compares the strings of the elements, and every \<open>UniqueId\<close> has the string
  \<open>[object Object]\<close>.
\<close>

definition js_sort_objects :: "ref list \<Rightarrow> ref list" where
  "js_sort_objects keys = sort_key (\<lambda>_. ''[object Object]'') keys"

text \<open>
  The body of the \<open>process.nextTick\<close> callback of \<open>handle_method(method_id, args)\<close>.
  (The message of the error passed to \<open>fatal\<close>, which names the method, is shortened.)
\<close>

definition handle_method_tick ::
  "nat \<Rightarrow> 'a \<Rightarrow> ('a, 'z) ChannelAbstract_scheme \<Rightarrow> ('a, 'z) ChannelAbstract_scheme" where
  "handle_method_tick method_id args this =
     (if destroyed this then this
      else
        (let callbacks = map_of (request_callbacks this) method_id in
         if callbacks \<noteq> None \<and> length (the callbacks) \<noteq> 0 then
           (let cb = (if length (the callbacks) = 1 then the callbacks ! 0
                      else js_sort_objects (the callbacks) ! 0)
            in callback cb (resolve method_id args) this)
         else if method_id \<notin> set (handlers this)
         then this \<lparr> effects := effects this @ [Fatal (JsError ''Handler not found!'')] \<rparr>
         else this \<lparr> effects := effects this @ [Handler method_id args] \<rparr>))"

text \<open>
  The rejection loops of \<open>destroy\<close>. A \<open>for ... of\<close> over a \<open>Map\<close> is live: an entry
  deleted before the iteration reaches it is not visited. \<open>reject_entries\<close> runs over
  the entries of one map as they were when its loop started and skips those no longer
  in the map; \<open>reject_maps\<close> runs over the keys of \<open>request_callbacks\<close>, which no
  callback changes.
\<close>

fun reject_entries ::
  "ref list \<Rightarrow> nat \<Rightarrow> error \<Rightarrow> ('a, 'z) ChannelAbstract_scheme \<Rightarrow> ('a, 'z) ChannelAbstract_scheme" where
  "reject_entries [] method_id reject_error this = this"
| "reject_entries (r # rs) method_id reject_error this =
     (if r \<in> set (pending method_id this)
      then reject_entries rs method_id reject_error (callback r (reject reject_error) this)
      else reject_entries rs method_id reject_error this)"

fun reject_maps ::
  "nat list \<Rightarrow> error \<Rightarrow> ('a, 'z) ChannelAbstract_scheme \<Rightarrow> ('a, 'z) ChannelAbstract_scheme" where
  "reject_maps [] reject_error this = this"
| "reject_maps (method_id # keys) reject_error this =
     reject_maps keys reject_error
       (reject_entries (pending method_id this) method_id reject_error this)"

text \<open>
  \<open>ChannelAbstract.destroy(error)\<close>. \<open>socket_destroyed\<close> is \<open>this.socket.destroyed\<close>.
  \<open>call_close\<close> is abstract here; that it was called is recorded.
\<close>

definition ChannelAbstract_destroy ::
  "bool \<Rightarrow> error option \<Rightarrow> ('a, 'z) ChannelAbstract_scheme \<Rightarrow> ('a, 'z) ChannelAbstract_scheme" where
  "ChannelAbstract_destroy socket_destroyed err this =
     (let this1 = (if \<not> socket_destroyed \<and> \<not> destroyed this
                   then this \<lparr> effects := effects this @ [Call_close err] \<rparr> else this);
          reject_error = (case err of
                            Some e \<Rightarrow> e
                          | None \<Rightarrow> HardError 0 connection_forced ''Channel or connection closed'')
      in reject_maps (map fst (request_callbacks this1)) reject_error this1)"

text \<open>
  \<open>ChannelChildAbstract.destroy(error)\<close>: \<open>super.destroy(error)\<close>,
  \<open>this.destroyed = true\<close>, \<open>this.connection.channels.delete(this.channel)\<close>.
\<close>

definition ChannelChildAbstract_destroy ::
  "bool \<Rightarrow> error option \<Rightarrow> ('a, 'z) ChannelAbstract_scheme \<Rightarrow> ('a, 'z) ChannelAbstract_scheme" where
  "ChannelChildAbstract_destroy socket_destroyed err this =
     (let this1 = ChannelAbstract_destroy socket_destroyed err this in
      this1 \<lparr> destroyed := True, effects := effects this1 @ [Channels_delete (channel this1)] \<rparr>)"

text \<open>
  How a child channel evolves: from any state, registrations of \<open>call_api\<close>,
  incoming methods, failures of a \<open>send\<close> that was invoked, and \<open>destroy\<close> happen in
  any order. A channel is created by \<open>ChannelAbstract_new\<close>.
\<close>

inductive evolves :: "'a ChannelAbstract \<Rightarrow> 'a ChannelAbstract \<Rightarrow> bool" where
  start: "evolves this0 this0"
| registered: "evolves this0 this \<Longrightarrow> responses \<noteq> [] \<Longrightarrow>
     evolves this0 (call_api_tick factory now responses this)"
| method_handled: "evolves this0 this \<Longrightarrow>
     evolves this0 (handle_method_tick method_id args this)"
| send_failed: "evolves this0 this \<Longrightarrow> Send r \<in> set (effects this) \<Longrightarrow>
     evolves this0 (callback r (reject e) this)"
| destroy_called: "evolves this0 this \<Longrightarrow>
     evolves this0 (ChannelChildAbstract_destroy socket_destroyed err this)"

text \<open>The closures whose promise settles in a list of effects, in order.\<close>

fun settled_refs :: "'a effect list \<Rightarrow> ref list" where
  "settled_refs [] = []"
| "settled_refs (Settled r outcome # es) = r # settled_refs es"
| "settled_refs (e # es) = settled_refs es"

text \<open>The closures that have an entry in some map of \<open>request_callbacks\<close>.\<close>

definition pending_refs :: "('a, 'z) ChannelAbstract_scheme \<Rightarrow> ref set" where
  "pending_refs this = (\<Union>(method_id, callbacks) \<in> set (request_callbacks this). set callbacks)"

text \<open>
  What holds of the registry in every state of a channel: the keys of
  \<open>request_callbacks\<close> are distinct; every map holds each closure once, in the order
  of allocation; and a closure in the map of \<open>method_id\<close> is allocated, not yet called,
  and expects \<open>method_id\<close>.
\<close>

definition registry_ok :: "('a, 'z) ChannelAbstract_scheme \<Rightarrow> bool" where
  "registry_ok this \<longleftrightarrow>
     distinct (map fst (request_callbacks this))
     \<and> (\<forall>method_id.
          distinct (pending method_id this) \<and> sorted (pending method_id this)
          \<and> (\<forall>r \<in> set (pending method_id this).
                r < length (closures this) \<and> \<not> cl_called (closures this ! r)
                \<and> method_id \<in> set (cl_responses (closures this ! r))))"

text \<open>
  A run of rejections from \<open>this\<close> to \<open>this'\<close> with the error \<open>e\<close>: the registry stays
  in order, with the same keys; no map gains an entry; and the effects added are
  exactly one \<open>reject(e)\<close> for each closure that left the registry.
\<close>

definition rejection_run ::
  "error \<Rightarrow> ('a, 'z) ChannelAbstract_scheme \<Rightarrow> ('a, 'z) ChannelAbstract_scheme \<Rightarrow> bool" where
  "rejection_run e this this' \<longleftrightarrow>
     registry_ok this'
     \<and> map fst (request_callbacks this') = map fst (request_callbacks this)
     \<and> destroyed this' = destroyed this \<and> channel this' = channel this
     \<and> handlers this' = handlers this \<and> closed this' = closed this
     \<and> (\<forall>method_id. set (pending method_id this') \<subseteq> set (pending method_id this))
     \<and> (\<exists>new. effects this' = effects this @ new
              \<and> new = map (\<lambda>r. Settled r (reject e)) (settled_refs new)
              \<and> distinct (settled_refs new)
              \<and> set (settled_refs new) = pending_refs this - pending_refs this')"

text \<open>
  A new child channel with two waiters, for the concrete evaluations below: the first
  \<open>call_api\<close> expects \<open>basic.consume-ok\<close> or \<open>channel.close-ok\<close>, the second expects
  \<open>basic.consume-ok\<close>; both are registered in the same millisecond.
\<close>

definition METHODS_basic_consume_ok :: nat where "METHODS_basic_consume_ok = 3932181"

definition two_waiters :: "unit ChannelAbstract" where
  "two_waiters =
     call_api_tick (UniqueFactory_new 0) 5 [METHODS_basic_consume_ok]
       (call_api_tick (UniqueFactory_new 0) 5 [METHODS_basic_consume_ok, METHODS_channel_close_ok]
          (ChannelAbstract_new 1 []))"

section \<open>ChannelConsume (lib/consumer.ts)\<close>

text \<open>
  The arguments of \<open>basic.deliver\<close> (\<open>BASIC_DELIVER\<close> of proto/api.ts) and the basic
  properties, an object from property key to value.
\<close>

record BASIC_DELIVER =
  consumer_tag :: string
  delivery_tag :: nat
  redelivered :: bool
  exchange :: string
  routing_key :: string

type_synonym BASIC_PROPERTIES = "(string \<times> property_value) list"

text \<open>
  \<open>type ConsumeChunk\<close>: \<open>{type: 'deliver', deliver}\<close>,
  \<open>{type: 'header', properties, body_size}\<close>, \<open>{type: 'body', body}\<close>.
\<close>

datatype ConsumeChunk =
  chunk_deliver BASIC_DELIVER
  | chunk_header BASIC_PROPERTIES nat
  | chunk_body Buffer

text \<open>
  A readable stream, as far as the channel and the transformer use it: whether it is
  destroyed, and what has been pushed into it, \<open>None\<close> being \<open>push(null)\<close>, the end of
  the stream.
\<close>

record 'c ReadableAsync =
  stream_destroyed :: bool
  pushed :: "'c option list"

definition ReadableAsync_new :: "'c ReadableAsync" where
  "ReadableAsync_new = \<lparr> stream_destroyed = False, pushed = [] \<rparr>"

definition push :: "'c option \<Rightarrow> 'c ReadableAsync \<Rightarrow> 'c ReadableAsync" where
  "push chunk stream = stream \<lparr> pushed := pushed stream @ [chunk] \<rparr>"

text \<open>
  \<open>class ChannelConsume extends ChannelChildAbstract\<close>: \<open>flow\<close> comes from
  \<open>ChannelChildAbstract\<close>; \<open>c_input\<close>, \<open>c_consumer_tag\<close> and \<open>c_cancelled\<close> are the
  private fields \<open>_input\<close>, \<open>_consumer_tag\<close> and \<open>_cancelled\<close>. \<open>_consumer_tag\<close> is
  \<open>None\<close> until \<open>subscribe\<close> assigns it from \<open>basic.consume-ok\<close>.
\<close>

record 'a ChannelConsume = "'a ChannelAbstract" +
  flow :: bool
  c_input :: "ConsumeChunk ReadableAsync"
  c_consumer_tag :: "string option"
  c_cancelled :: bool

definition ChannelConsume_new :: "nat \<Rightarrow> 'a ChannelConsume" where
  "ChannelConsume_new n =
     \<lparr> channel = n, request_callbacks = [], handlers = [], destroyed = False, closed = False,
       closures = [], effects = [], flow = False, c_input = ReadableAsync_new,
       c_consumer_tag = None, c_cancelled = False \<rparr>"

text \<open>
  \<open>ChannelConsume.destroy(error)\<close>: the end of the stream is pushed into \<open>_input\<close>
  unless it is destroyed or the channel cancelled; \<open>_cancelled = true\<close>;
  \<open>super.destroy(error)\<close>; \<open>destroyed = true\<close>.
\<close>

definition ChannelConsume_destroy ::
  "bool \<Rightarrow> error option \<Rightarrow> 'a ChannelConsume \<Rightarrow> 'a ChannelConsume" where
  "ChannelConsume_destroy socket_destroyed err this =
     (let this1 = (if \<not> stream_destroyed (c_input this) \<and> \<not> c_cancelled this
                   then this \<lparr> c_input := push None (c_input this) \<rparr> else this);
          this2 = this1 \<lparr> c_cancelled := True \<rparr>;
          this3 = ChannelChildAbstract_destroy socket_destroyed err this2
      in this3 \<lparr> destroyed := True \<rparr>)"

text \<open>
  The handler that the constructor registers for \<open>basic.deliver\<close>. A string is truthy
  when it is defined and not empty.
\<close>

definition basic_deliver_handler ::
  "bool \<Rightarrow> BASIC_DELIVER \<Rightarrow> 'a ChannelConsume \<Rightarrow> 'a ChannelConsume" where
  "basic_deliver_handler socket_destroyed args this =
     (if (c_consumer_tag this \<noteq> None \<and> c_consumer_tag this \<noteq> Some [])
         \<and> Some (consumer_tag args) \<noteq> c_consumer_tag this
      then ChannelConsume_destroy socket_destroyed
             (Some (SoftError METHODS_basic_deliver no_consumers ''Invalid consumer tag'')) this
      else if stream_destroyed (c_input this) then this
      else this \<lparr> c_input := push (Some (chunk_deliver args)) (c_input this) \<rparr>)"

text \<open>
  A consume channel that has recorded no consumer tag and whose input stream has been
  destroyed, and a delivery, for the concrete evaluations below.
\<close>

definition consume_channel_input_destroyed :: "unit ChannelConsume" where
  "consume_channel_input_destroyed =
     (ChannelConsume_new 1) \<lparr> c_input := \<lparr> stream_destroyed = True, pushed = [None] \<rparr>,
                               c_cancelled := True \<rparr>"

definition delivery_ctag :: BASIC_DELIVER where
  "delivery_ctag = \<lparr> consumer_tag = ''ctag'', delivery_tag = 1, redelivered = False,
                     exchange = ''x'', routing_key = [] \<rparr>"

section \<open>ConsumeStream, the content assembly (lib/consumer.ts)\<close>

text \<open>
  \<open>type ConsumeMessage\<close>: the delivery, the properties once the header has come, the
  body stream and the body size. The body is a \<open>ConsumerBodyReadable\<close> shared between
  the transformer, which pushes into it, and the application, which has received the
  message: it is held by reference into the store \<open>readables\<close>. (The \<open>ack\<close> and \<open>nack\<close>
  closures of a message are left out.)
\<close>

record ConsumeMessage =
  msg_deliver :: BASIC_DELIVER
  msg_properties :: "BASIC_PROPERTIES option"
  msg_body :: "ref option"
  msg_body_size :: nat

text \<open>
  The body size of a header chunk and \<open>_wait_size\<close> are JavaScript numbers
  (\<open>handle_header\<close> makes the chunk's \<open>body_size\<close> with \<open>Number(body_size)\<close>). The
  integers up to \<open>Number.MAX_SAFE_INTEGER\<close> are numbers, and the differences that stay
  in this range are exact: in this range the integers of the model are the numbers of
  the code. Larger sizes are outside the model.
\<close>

definition MAX_SAFE_INTEGER :: nat where
  "MAX_SAFE_INTEGER = 2 ^ 53 - 1"

text \<open>
  \<open>class ConsumeStream\<close>: \<open>current\<close> is \<open>_current\<close>, \<open>wait_size\<close> is \<open>_wait_size\<close>;
  \<open>readables\<close> is the store of body streams; \<open>emitted\<close> are the messages handed
  downstream by \<open>pushAsync\<close>.
\<close>

record ConsumeStream =
  current :: "ConsumeMessage option"
  wait_size :: int
  readables :: "Buffer ReadableAsync list"
  emitted :: "ConsumeMessage list"

definition ConsumeStream_new :: ConsumeStream where
  "ConsumeStream_new = \<lparr> current = None, wait_size = 0, readables = [], emitted = [] \<rparr>"

text \<open>\<open>flush_message(needPush)\<close>.\<close>

definition flush_message :: "bool \<Rightarrow> ConsumeStream \<Rightarrow> error + ConsumeStream" where
  "flush_message needPush this =
     (case current this of
        None \<Rightarrow> Inl (JsError ''Unexprected missed current'')
      | Some cur \<Rightarrow>
          (let this1 = (case msg_body cur of
                          Some b \<Rightarrow> this \<lparr> readables := (readables this) [b := push None (readables this ! b)] \<rparr>
                        | None \<Rightarrow> this);
               this2 = (if needPush then this1 \<lparr> emitted := emitted this1 @ [cur] \<rparr> else this1)
           in Inr (this2 \<lparr> current := None, wait_size := 0 \<rparr>)))"

text \<open>
  \<open>_writeAsync(chunk)\<close>. Every \<open>throw\<close> comes before the first assignment of its
  branch, so the stream is unchanged when the result is an error.
\<close>

definition writeAsync :: "ConsumeChunk \<Rightarrow> ConsumeStream \<Rightarrow> error + ConsumeStream" where
  "writeAsync chunk this =
     (case chunk of
        chunk_deliver deliver \<Rightarrow>
          (if current this \<noteq> None
           then Inl (HardError METHODS_basic_consume unexpected_frame
                       ''Unexpected not finished message on deliver'')
           else Inr (this \<lparr> current := Some \<lparr> msg_deliver = deliver, msg_properties = None,
                                               msg_body = None, msg_body_size = 0 \<rparr> \<rparr>))
      | chunk_header properties body_size \<Rightarrow>
          (case current this of
             None \<Rightarrow> Inl (HardError METHODS_basic_consume unexpected_frame ''Unexpected header'')
           | Some cur \<Rightarrow>
               (if msg_properties cur \<noteq> None
                then Inl (HardError METHODS_basic_consume unexpected_frame ''Unexpected header'')
                else if body_size \<noteq> 0 then
                  (let cur' = cur \<lparr> msg_properties := Some properties,
                                    msg_body_size := body_size,
                                    msg_body := Some (length (readables this)) \<rparr>
                   in Inr (this \<lparr> current := Some cur',
                                  readables := readables this @ [ReadableAsync_new],
                                  wait_size := int body_size,
                                  emitted := emitted this @ [cur'] \<rparr>))
                else flush_message True
                       (this \<lparr> current := Some (cur \<lparr> msg_properties := Some properties \<rparr>) \<rparr>)))
      | chunk_body body \<Rightarrow>
          (case current this of
             None \<Rightarrow> Inl (HardError METHODS_basic_consume unexpected_frame ''Unexpected body'')
           | Some cur \<Rightarrow>
               (if msg_properties cur = None
                then Inl (HardError METHODS_basic_consume unexpected_frame ''Unexpected body'')
                else if length body = 0 then Inr this
                else
                  (let wait = wait_size this - int (length body) in
                   if wait < 0
                   then Inl (HardError METHODS_basic_consume unexpected_frame ''Body size exceeded'')
                   else
                     (case msg_body cur of
                        None \<Rightarrow> Inl (HardError METHODS_basic_consume unexpected_frame
                                        ''Body size exceeded'')
                      | Some b \<Rightarrow>
                          (let this1 = this \<lparr> readables :=
                                  (readables this) [b := push (Some body) (readables this ! b)] \<rparr>
                           in if wait = 0 then flush_message False this1
                              else Inr (this1 \<lparr> wait_size := wait \<rparr>)))))))"

text \<open>
  The chunks written to the transformer, one after the other; the first error ends
  the stream, which stays as it was when the error was thrown.
\<close>

fun ConsumeStream_writes :: "ConsumeChunk list \<Rightarrow> ConsumeStream \<Rightarrow> error option \<times> ConsumeStream" where
  "ConsumeStream_writes [] this = (None, this)"
| "ConsumeStream_writes (chunk # chunks) this =
     (case writeAsync chunk this of
        Inl e \<Rightarrow> (Some e, this)
      | Inr this' \<Rightarrow> ConsumeStream_writes chunks this')"

text \<open>
  \<open>Connection.destroy(error)\<close>, as far as the channels go: every channel of the map is
  destroyed with the error (by its own \<open>destroy\<close>, here \<open>child_destroy\<close>) and removed
  from the map, and the connection is marked destroyed. The channel objects as their
  \<open>destroy\<close> left them are returned beside the connection. (The connection's own
  waiters, its timers and the socket are left out.)
\<close>

definition Connection_destroy ::
  "(error option \<Rightarrow> 'ch \<Rightarrow> 'ch) \<Rightarrow> error option \<Rightarrow> 'ch Connection \<Rightarrow> 'ch Connection \<times> 'ch list" where
  "Connection_destroy child_destroy err this =
     (this \<lparr> channels := [], conn_destroyed := True \<rparr>,
      map (\<lambda>(key, ch). child_destroy err ch) (channels this))"

text \<open>
  The callback that \<open>subscribe\<close> passes to \<open>pipeline(this._input, transform, ...)\<close>, for
  the consume channel stored under \<open>key\<close>: nothing when the channel is destroyed (a
  channel no longer in the map has been destroyed), else
  \<open>this.connection.destroy(error)\<close>.
\<close>

definition subscribe_pipeline_callback ::
  "bool \<Rightarrow> error option \<Rightarrow> nat \<Rightarrow> 'a ChannelConsume Connection
     \<Rightarrow> 'a ChannelConsume Connection \<times> 'a ChannelConsume list" where
  "subscribe_pipeline_callback socket_destroyed err key connection =
     (case map_of (channels connection) key of
        None \<Rightarrow> (connection, [])
      | Some this \<Rightarrow>
          if destroyed this then (connection, [])
          else Connection_destroy (ChannelConsume_destroy socket_destroyed) err connection)"

section \<open>Vocabulary of the content assembly\<close>

text \<open>
  A message is in progress: the header has come with a positive body size, the body
  stream \<open>b\<close> of the current message is in the store, and \<open>w\<close> octets are still awaited.
\<close>

definition in_progress :: "ConsumeStream \<Rightarrow> ref \<Rightarrow> nat \<Rightarrow> bool" where
  "in_progress this b w \<longleftrightarrow>
     (\<exists>cur. current this = Some cur \<and> msg_properties cur \<noteq> None \<and> msg_body cur = Some b)
     \<and> b < length (readables this) \<and> wait_size this = int w \<and> 0 < w"

text \<open>
  The stream in which the values \<open>xs\<close> have been pushed, in this order, to the body
  stream \<open>b\<close>.
\<close>

definition pushed_to :: "ref \<Rightarrow> Buffer option list \<Rightarrow> ConsumeStream \<Rightarrow> ConsumeStream" where
  "pushed_to b xs this =
     this \<lparr> readables := (readables this)
              [b := (readables this ! b) \<lparr> pushed := pushed (readables this ! b) @ xs \<rparr>] \<rparr>"

text \<open>
  The frames of a body that are not empty.
\<close>

definition nonempty :: "Buffer list \<Rightarrow> Buffer list" where
  "nonempty frames = filter (\<lambda>f. f \<noteq> []) frames"

text \<open>
  The error is a \<open>HardError(METHODS.basic_consume, 'unexpected_frame', ...)\<close>.
\<close>

definition is_unexpected_frame :: "error option \<Rightarrow> bool" where
  "is_unexpected_frame e \<longleftrightarrow>
     (case e of Some (HardError m r t) \<Rightarrow> m = METHODS_basic_consume \<and> r = unexpected_frame
      | _ \<Rightarrow> False)"

text \<open>
  The chunks of one message as \<open>ChannelConsume\<close> pushes them to the input queue: the
  delivery, the content header with the body size, one chunk for each body frame.
\<close>

definition message_chunks ::
  "BASIC_DELIVER \<Rightarrow> BASIC_PROPERTIES \<Rightarrow> nat \<Rightarrow> Buffer list \<Rightarrow> ConsumeChunk list" where
  "message_chunks deliver properties body_size frames =
     chunk_deliver deliver # chunk_header properties body_size # map chunk_body frames"

text \<open>The body sizes of the header chunks are in the range of the exact numbers.\<close>

definition safe_sizes :: "ConsumeChunk list \<Rightarrow> bool" where
  "safe_sizes chunks =
     list_all (\<lambda>chunk. case chunk of
                          chunk_header properties body_size \<Rightarrow> body_size \<le> MAX_SAFE_INTEGER
                        | _ \<Rightarrow> True) chunks"

text \<open>
  A connection with one consume channel, on channel 1.
\<close>

definition consume_connection :: "unit ChannelConsume Connection" where
  "consume_connection =
     \<lparr> opened = True, conn_destroyed = False, blocked = False, options_channel_max = 2047,
       channels = [(1, ChannelConsume_new 1)] \<rparr>"

chapter \<open>Theorems\<close>

section \<open>Strings in buffers\<close>

text \<open>A string that fits is written whole.\<close>

lemma take_whole_all: "length octets \<le> n \<Longrightarrow> take_whole n (utf8_characters octets) = octets"
proof (induction octets arbitrary: n rule: utf8_characters.induct)
  case 1
  then show ?case by simp
next
  case (2 b bs)
  have "length (takeWhile is_continuation bs) + length (dropWhile is_continuation bs) = length bs"
    by (metis length_append takeWhile_dropWhile_id)
  with 2 show ?case by simp
qed

lemma Buffer_write_fits:
  "offset + length octets \<le> length buf
   \<Longrightarrow> Buffer_write buf octets offset = Inr (write_at buf offset octets)"
  by (simp add: Buffer_write_def take_whole_all)

text \<open>Octets below \<open>80\<close> are characters of their own: \<open>toString\<close> gives them back.\<close>

lemma Buffer_toString_ascii: "\<forall>b\<in>set bs. b \<le> 0x7F \<Longrightarrow> Buffer_toString bs = bs"
  by (induction bs) (simp_all add: Buffer_toString_def)

section \<open>UniqueFactory.generate\<close>

text \<open>
  C7. The claim: two successive \<open>generate()\<close> calls always return ids with
  \<open>id1.compare(id2) < 0\<close>. Evaluated on the code: with the factory created at
  millisecond 0, two successive calls in the same millisecond 1000 both return
  \<open>(1000, 0)\<close>, because \<open>last_id\<close> is never updated; \<open>compare\<close> gives 0, not a
  negative number.
\<close>

theorem generate_same_millisecond_not_increasing:
  "(let f0 = UniqueFactory_new 0;
        (id1, f1) = generate f0 1000;
        (id2, f2) = generate f1 1000
    in (id1, id2, compare id1 id2))
   = (\<lparr> time = 1000, sequence = 0 \<rparr>, \<lparr> time = 1000, sequence = 0 \<rparr>, 0)"
  by (simp add: UniqueFactory_new_def UniqueId_new_def generate_def compare_def)

section \<open>Connection.channel_open\<close>

lemma js_sort_numbers_1_to_10:
  "js_sort_numbers [1, 2, 3, 4, 5, 6, 7, 8, 9, 10] = [1, 10, 2, 3, 4, 5, 6, 7, 8, 9]"
  by code_simp

text \<open>
  C2. The claim: a successful \<open>channel_open\<close> never returns an id that is a key of
  \<open>channels\<close>. Evaluated on the code: with the ids 1 to 10 allocated and
  \<open>channel_max = 100\<close>, the default sort orders the keys as strings
  (1, 10, 2, ..., 9), \<open>last_id\<close> is 9, and the id returned is 10, which is allocated.
\<close>

theorem channel_open_reallocates_id_in_use:
  "channel_open child_class
     \<lparr> opened = True, conn_destroyed = False, blocked = False, options_channel_max = 100,
       channels = map (\<lambda>i. (i, child_class i)) [1, 2, 3, 4, 5, 6, 7, 8, 9, 10] \<rparr>
   = Inr (10,
     \<lparr> opened = True, conn_destroyed = False, blocked = False, options_channel_max = 100,
       channels = map (\<lambda>i. (i, child_class i)) [1, 2, 3, 4, 5, 6, 7, 8, 9, 10] \<rparr>)"
  using js_sort_numbers_1_to_10
  by (simp add: channel_open_def next_channel_id_def)

text \<open>The same evaluation with the channel objects taken to be \<open>()\<close>.\<close>

theorem channel_open_reallocates_id_in_use_witness:
  "channel_open (\<lambda>i. ())
     \<lparr> opened = True, conn_destroyed = False, blocked = False, options_channel_max = 100,
       channels = map (\<lambda>i. (i, ())) [1, 2, 3, 4, 5, 6, 7, 8, 9, 10] \<rparr>
   = Inr (10,
     \<lparr> opened = True, conn_destroyed = False, blocked = False, options_channel_max = 100,
       channels = map (\<lambda>i. (i, ())) [1, 2, 3, 4, 5, 6, 7, 8, 9, 10] \<rparr>)"
  using channel_open_reallocates_id_in_use [of "\<lambda>i. ()"] by simp

lemma number_toString_digit: "n < 10 \<Longrightarrow> number_toString n = [digit_char n]"
  by (simp add: number_toString.simps)

lemma of_char_digit_char: "a < 10 \<Longrightarrow> (of_char (digit_char a) :: nat) = 48 + a"
  by (simp add: digit_char_def)

lemma digit_char_le: "a < 10 \<Longrightarrow> b < 10 \<Longrightarrow> digit_char a \<le> digit_char b \<longleftrightarrow> a \<le> b"
  by (simp add: less_eq_char_def of_char_digit_char)

lemma number_toString_le:
  "a < 10 \<Longrightarrow> b < 10 \<Longrightarrow> number_toString a \<le> number_toString b \<longleftrightarrow> a \<le> b"
  using digit_char_le [of a b] by (simp add: number_toString_digit) (metis order_le_less)

lemma sorted_map_last_greatest:
  "sorted (map f ys) \<Longrightarrow> y \<in> set ys \<Longrightarrow> f y \<le> f (last ys)"
  by (induction ys) (auto)

lemma js_sort_numbers_last:
  assumes "xs \<noteq> []" and "\<forall>x \<in> set xs. x < 10"
  shows "last (js_sort_numbers xs) = Max (set xs)"
proof -
  let ?ys = "js_sort_numbers xs"
  have set: "set ?ys = set xs" and ne: "?ys \<noteq> []"
    using assms(1) length_sort [of number_toString xs] by (auto simp: js_sort_numbers_def simp del: length_sort)
  have srt: "sorted (map number_toString ?ys)"
    by (simp add: js_sort_numbers_def)
  have "last ?ys \<in> set xs" using ne set last_in_set by blast
  moreover have "y \<le> last ?ys" if "y \<in> set xs" for y
  proof -
    have "number_toString y \<le> number_toString (last ?ys)"
      using sorted_map_last_greatest [OF srt] that set by blast
    then show ?thesis
      using number_toString_le that assms(2) \<open>last ?ys \<in> set xs\<close> by blast
  qed
  ultimately show ?thesis
    by (metis List.finite_set Max_eqI)
qed

lemma find_free_cases:
  "(find_free chs n d = d \<and> (\<forall>j. 0 < j \<and> j \<le> n \<longrightarrow> map_of chs j \<noteq> None))
   \<or> (0 < find_free chs n d \<and> find_free chs n d \<le> n \<and> map_of chs (find_free chs n d) = None
       \<and> (\<forall>j. find_free chs n d < j \<and> j \<le> n \<longrightarrow> map_of chs j \<noteq> None))"
proof (induction n)
  case 0
  then show ?case by simp
next
  case (Suc n)
  show ?case
  proof (cases "map_of chs (Suc n) = None")
    case True
    then show ?thesis by auto
  next
    case False
    then show ?thesis using Suc by (auto simp: le_Suc_eq)
  qed
qed

lemma channel_open_Inr:
  "channel_open child_class this = Inr (k, this') \<Longrightarrow> k = next_channel_id (channels this)"
  unfolding channel_open_def Let_def by (simp split: if_splits)

text \<open>
  C3, as amended. When \<open>channel_open\<close> succeeds on a connection whose allocated ids
  \<open>S\<close> are all between 1 and 9: the id is 1 when \<open>S\<close> is empty; when the greatest
  id exceeds the number of channels, it is the greatest unused id below the greatest
  allocated one (found by the downward search); otherwise \<open>S\<close> has no gap and the id is
  the greatest id plus one, the lowest unused id.
\<close>

theorem channel_open_id_small_sets:
  assumes ok: "channel_open child_class this = Inr (k, this')"
      and dist: "distinct (map fst (channels this))"
      and small: "\<forall>i \<in> fst ` set (channels this). 1 \<le> i \<and> i \<le> 9"
  shows "let S = fst ` set (channels this) in
         (if S = {} then k = 1
          else if card S < Max S
            then 1 \<le> k \<and> k < Max S \<and> k \<notin> S \<and> (\<forall>j. k < j \<and> j < Max S \<longrightarrow> j \<in> S)
            else k = Max S + 1 \<and> (\<forall>j. 1 \<le> j \<and> j < k \<longrightarrow> j \<in> S))"
proof -
  define chs where "chs = channels this"
  define S where "S = fst ` set chs"
  define ids where "ids = js_sort_numbers (map fst chs)"
  have k: "k = next_channel_id chs"
    using channel_open_Inr [OF ok] by (simp add: chs_def)
  have len: "length ids = card S"
    using dist distinct_card [of "map fst chs"]
    by (simp add: ids_def js_sort_numbers_def S_def chs_def)
  have fin: "finite S" by (simp add: S_def)
  have none: "map_of chs j = None \<longleftrightarrow> j \<notin> S" for j
    by (simp add: map_of_eq_None_iff S_def)
  show ?thesis
  proof (cases "S = {}")
    case True
    then have "chs = []" by (simp add: S_def)
    then have "k = 1" by (simp add: k next_channel_id_def js_sort_numbers_def)
    with True show ?thesis by (simp add: S_def chs_def)
  next
    case False
    then have ne: "map fst chs \<noteq> []" by (auto simp: S_def)
    then have idsne: "ids \<noteq> []"
      using length_sort [of number_toString "map fst chs"]
      by (auto simp: ids_def js_sort_numbers_def simp del: length_sort)
    have "\<forall>x \<in> set (map fst chs). x < 10" using small by (auto simp: chs_def)
    from js_sort_numbers_last [OF ne this]
    have lst: "ids ! (length ids - 1) = Max S"
      using idsne by (simp add: ids_def S_def last_conv_nth)
    have maxin: "Max S \<in> S" using False fin by simp
    have ge1: "\<And>i. i \<in> S \<Longrightarrow> 1 \<le> i" using small by (auto simp: S_def chs_def)
    have kdef: "k = (if card S < Max S then find_free chs (Max S - 1) 1 else Max S + 1)"
      using idsne lst len by (simp add: k next_channel_id_def Let_def ids_def [symmetric])
    show ?thesis
    proof (cases "card S < Max S")
      case True
      then have kf: "k = find_free chs (Max S - 1) 1" by (simp add: kdef)
      have "\<not> (\<forall>j. 0 < j \<and> j \<le> Max S - 1 \<longrightarrow> map_of chs j \<noteq> None)"
      proof
        assume all: "\<forall>j. 0 < j \<and> j \<le> Max S - 1 \<longrightarrow> map_of chs j \<noteq> None"
        have "{1..Max S} \<subseteq> S"
        proof
          fix j assume "j \<in> {1..Max S}"
          then have "j = Max S \<or> (0 < j \<and> j \<le> Max S - 1)" by auto
          then show "j \<in> S" using maxin all none by blast
        qed
        then have "card {1..Max S} \<le> card S" using fin card_mono by blast
        with True show False by simp
      qed
      with find_free_cases [of chs "Max S - 1" 1] kf
      have "0 < k \<and> k \<le> Max S - 1 \<and> map_of chs k = None
            \<and> (\<forall>j. k < j \<and> j \<le> Max S - 1 \<longrightarrow> map_of chs j \<noteq> None)"
        by blast
      then have "1 \<le> k \<and> k < Max S \<and> k \<notin> S \<and> (\<forall>j. k < j \<and> j < Max S \<longrightarrow> j \<in> S)"
        using none by auto
      with True False show ?thesis by (simp add: S_def chs_def)
    next
      case ncard: False
      then have kk: "k = Max S + 1" by (simp add: kdef)
      have sub: "S \<subseteq> {1..Max S}" using ge1 fin by auto
      have "card {1..Max S} \<le> card S" using ncard by simp
      then have "S = {1..Max S}" using sub by (intro card_seteq) simp_all
      then have sup: "{1..Max S} \<subseteq> S" by (rule equalityD2)
      have "\<forall>j. 1 \<le> j \<and> j < k \<longrightarrow> j \<in> S"
      proof (intro allI impI)
        fix j assume "1 \<le> j \<and> j < k"
        then have "j \<in> {1..Max S}" using kk by simp
        then show "j \<in> S" using sup by (rule rev_subsetD)
      qed
      with kk ncard False show ?thesis by (simp add: S_def chs_def)
    qed
  qed
qed

text \<open>
  C3, the claim as stated fails: with the ids 1 and 4 allocated the id chosen is 3,
  while 2 is unused and lower.
\<close>

theorem channel_open_not_lowest_unused:
  "channel_open (\<lambda>i. ()) conn14 = Inr (3, conn14 \<lparr> channels := [(1, ()), (4, ()), (3, ())] \<rparr>)
   \<and> map_of (channels conn14) 2 = None"
  by code_simp

theorem channel_open_id_small_sets_witness:
  "channel_open (\<lambda>i. ()) conn14 = Inr (3, conn14 \<lparr> channels := [(1, ()), (4, ()), (3, ())] \<rparr>)
   \<and> 3 < Max {1, 4 :: nat} \<and> (3 :: nat) \<notin> {1, 4}"
proof -
  have ok: "channel_open (\<lambda>i. ()) conn14 = Inr (3, conn14 \<lparr> channels := [(1, ()), (4, ()), (3, ())] \<rparr>)"
    by code_simp
  have d: "distinct (map fst (channels conn14))" by (simp add: conn14_def)
  have s: "\<forall>i \<in> fst ` set (channels conn14). 1 \<le> i \<and> i \<le> 9" by (simp add: conn14_def)
  from channel_open_id_small_sets [OF ok d s] ok show ?thesis
    by (simp add: conn14_def)
qed

section \<open>The frame envelope\<close>

lemma length_be_bytes [simp]: "length (be_bytes n v) = n"
  by (induction n) simp_all

lemma be_value_be_bytes_mod: "be_value (be_bytes n v) = v mod 256 ^ n"
proof (induction n)
  case 0
  then show ?case by simp
next
  case (Suc n)
  have "unat (of_nat (v div 256 ^ n) :: byte) = (v div 256 ^ n) mod 256"
    by (simp add: unat_of_nat)
  then show ?case
    using Suc mod_mult2_eq [of v "256 ^ n" 256] by (simp add: mult.commute)
qed

lemma be_value_be_bytes: "v < 256 ^ n \<Longrightarrow> be_value (be_bytes n v) = v"
  by (simp add: be_value_be_bytes_mod)

lemma length_write_at: "off + length bs \<le> length buf \<Longrightarrow> length (write_at buf off bs) = length buf"
  by (simp add: write_at_def)

lemma write_at_prefix:
  "write_at (pre @ rest) (length pre) bs = pre @ bs @ drop (length bs) rest"
  by (simp add: write_at_def)

lemma write_at_0: "write_at buf 0 bs = bs @ drop (length bs) buf"
  by (simp add: write_at_def)

lemma nth_write_at_in:
  "off + length bs \<le> length buf \<Longrightarrow> i < length bs \<Longrightarrow> write_at buf off bs ! (off + i) = bs ! i"
  by (simp add: write_at_def nth_append)

lemma nth_write_at_after:
  "off + length bs \<le> i \<Longrightarrow> i < length buf \<Longrightarrow> write_at buf off bs ! i = buf ! i"
  by (auto simp: write_at_def nth_append)

lemma take_drop_write_at:
  "off + length bs \<le> length buf \<Longrightarrow> take (length bs) (drop off (write_at buf off bs)) = bs"
  by (simp add: write_at_def)

lemma length_frame_envelope [simp]: "length (frame_envelope t ch n) = 7"
  by (simp add: frame_envelope_def)

lemma framestart_Inr:
  assumes "frame_type < 256" "chan < 65536" "sz < 4294967296" "7 \<le> length (wbuffer this)"
  shows "framestart frame_type chan sz this =
         Inr (this \<lparr> wbuffer := frame_envelope frame_type chan sz @ drop 7 (wbuffer this),
                     woffset := 7 \<rparr>)"
proof -
  let ?b = "wbuffer this"
  have 1: "writeUInt8 ?b frame_type 0 = Inr (be_bytes 1 frame_type @ drop 1 ?b)"
    using assms by (simp add: writeUInt8_def writeUIntBE_def write_at_0)
  have 2: "writeUInt16BE (be_bytes 1 frame_type @ drop 1 ?b) chan 1
           = Inr (be_bytes 1 frame_type @ be_bytes 2 chan @ drop 3 ?b)"
    using assms write_at_prefix [of "be_bytes 1 frame_type" "drop 1 ?b" "be_bytes 2 chan"]
    by (simp add: writeUInt16BE_def writeUIntBE_def)
  have 3: "writeUInt32BE (be_bytes 1 frame_type @ be_bytes 2 chan @ drop 3 ?b) sz 3
           = Inr (be_bytes 1 frame_type @ be_bytes 2 chan @ be_bytes 4 sz @ drop 7 ?b)"
    using assms write_at_prefix [of "be_bytes 1 frame_type @ be_bytes 2 chan" "drop 3 ?b" "be_bytes 4 sz"]
    by (simp add: writeUInt32BE_def writeUIntBE_def)
  show ?thesis
    by (simp only: framestart_def 1 2 3 sum.simps frame_envelope_def append_assoc)
qed

lemma write_prefix_Inr:
  assumes "val < 256 ^ n" "length pre + n \<le> length (pre @ rest)" "off = length pre"
  shows "writeUIntBE (pre @ rest) val off n = Inr (pre @ be_bytes n val @ drop n rest)"
  using assms write_at_prefix [of pre rest "be_bytes n val"] by (simp add: writeUIntBE_def)

lemma methodstart_Inr:
  assumes "chan < 65536" "sz < 4294967296" "method_id < 4294967296" "11 \<le> length (wbuffer this)"
  shows "methodstart chan sz method_id this =
         Inr (this \<lparr> wbuffer := frame_envelope 1 chan sz
                                   @ be_bytes 4 method_id @ drop 11 (wbuffer this), woffset := 11 \<rparr>)"
proof -
  define h where "h = frame_envelope 1 chan sz"
  have lh: "length h = 7" by (simp add: h_def)
  have fs: "framestart FRAME_TYPES_frame_method chan sz this =
            Inr (this \<lparr> wbuffer := h @ drop 7 (wbuffer this), woffset := 7 \<rparr>)"
    using framestart_Inr [of 1 chan sz this] assms by (simp add: FRAME_TYPES_frame_method_def h_def)
  have "writeUIntBE (h @ drop 7 (wbuffer this)) method_id 7 4
           = Inr (h @ be_bytes 4 method_id @ drop 4 (drop 7 (wbuffer this)))"
    by (rule write_prefix_Inr) (use assms lh in simp_all)
  then have w: "writeUInt32BE (h @ drop 7 (wbuffer this)) method_id 7
           = Inr (h @ be_bytes 4 method_id @ drop 11 (wbuffer this))"
    by (simp add: writeUInt32BE_def)
  show ?thesis
    unfolding methodstart_def fs h_def [symmetric] by (simp add: w)
qed

lemma uint8_static_prefix:
  assumes "\<not> dynamic w" "wbuffer w = pre @ rest" "woffset w = length pre" "rest \<noteq> []" "v < 256"
  shows "BufferWriter_uint8 v w =
         Inr (w \<lparr> wbuffer := pre @ [of_nat v] @ drop 1 rest, woffset := length pre + 1 \<rparr>)"
proof -
  have "length pre + 1 \<le> length (pre @ rest)" using assms(4) by (cases rest) simp_all
  then have "writeUInt8 (pre @ rest) v (length pre) = Inr (pre @ be_bytes 1 v @ drop 1 rest)"
    unfolding writeUInt8_def using assms(5) by (intro write_prefix_Inr) simp_all
  then show ?thesis
    using assms(1,2,3) by (simp add: BufferWriter_uint8_def safewrite_def Let_def)
qed

lemma explicit_frame_envelope:
  assumes "n < 4294967296" "length P = n"
  shows "length (frame_envelope t ch n @ P @ [e]) = 8 + n"
    and "frame_payload_size (frame_envelope t ch n @ P @ [e]) = n"
    and "last (frame_envelope t ch n @ P @ [e]) = e"
    and "frame_payload (frame_envelope t ch n @ P @ [e]) = P"
proof -
  let ?f = "frame_envelope t ch n @ P @ [e]"
  show "length ?f = 8 + n" using assms by simp
  have "take 4 (drop 3 ?f) = be_bytes 4 n"
    by (simp add: frame_envelope_def del: be_bytes.simps)
  then show "frame_payload_size ?f = n"
    using assms be_value_be_bytes [of n 4] by (simp add: frame_payload_size_def del: be_bytes.simps)
  show "last ?f = e" by simp
  show "frame_payload ?f = P"
    using assms by (simp add: frame_payload_def)
qed

lemma writeHeartbeat_frame:
  "writeHeartbeat mem socket =
     Inr (writeSocket socket
       \<lparr> wbuffer = frame_envelope 8 0 0 @ [] @ [206], woffset = 8,
         dynamic = False, wmem = mem \<rparr>)"
proof -
  define w0 where "w0 = BufferWriter_new mem EMPTY_FRAME_SIZE False"
  define h where "h = frame_envelope 8 0 0"
  have lh: "length h = 7" by (simp add: h_def)
  have w0: "w0 = \<lparr> wbuffer = allocUnsafe mem 8, woffset = 0, dynamic = False, wmem = mem \<rparr>"
    by (simp add: w0_def BufferWriter_new_def EMPTY_FRAME_SIZE_def)
  have d: "drop 7 (wbuffer w0) = [mem 7]"
    by (simp add: w0 allocUnsafe_def drop_map)
  have fs: "framestart FRAME_TYPES_frame_heartbeat 0 0 w0 =
            Inr (w0 \<lparr> wbuffer := h @ [mem 7], woffset := 7 \<rparr>)"
    using framestart_Inr [of 8 0 0 w0] d
    by (simp add: FRAME_TYPES_frame_heartbeat_def h_def w0 allocUnsafe_def)
  have fe: "frameend (w0 \<lparr> wbuffer := h @ [mem 7], woffset := 7 \<rparr>) =
            Inr (w0 \<lparr> wbuffer := h @ [206], woffset := 8 \<rparr>)"
    using uint8_static_prefix [of "w0 \<lparr> wbuffer := h @ [mem 7], woffset := 7 \<rparr>" h "[mem 7]" 206]
    by (simp add: frameend_def FRAME_CONST_frame_end_def w0 lh)
  show ?thesis
    unfolding writeHeartbeat_def Let_def heartbeat_def w0_def [symmetric] fs
    by (simp add: fe h_def [symmetric]) (simp add: w0)
qed

lemma writeVoid_frame:
  assumes "chan < 65536" "method_id < 4294967296"
  shows "writeVoid mem method_id socket chan =
     Inr (writeSocket socket
       \<lparr> wbuffer = frame_envelope 1 chan 4 @ be_bytes 4 method_id @ [206], woffset = 12,
         dynamic = False, wmem = mem \<rparr>)"
proof -
  define w0 where "w0 = BufferWriter_new mem EMPTY_FRAME_METHOD_SIZE False"
  define h where "h = frame_envelope 1 chan 4 @ be_bytes 4 method_id"
  have lh: "length h = 11" by (simp add: h_def)
  have w0: "w0 = \<lparr> wbuffer = allocUnsafe mem 12, woffset = 0, dynamic = False, wmem = mem \<rparr>"
    by (simp add: w0_def BufferWriter_new_def EMPTY_FRAME_METHOD_SIZE_def EMPTY_FRAME_SIZE_def
        EMPTY_FRAME_METHOD_PAYLOAD_SIZE_def)
  have d: "drop 11 (wbuffer w0) = [mem 11]"
    by (simp add: w0 allocUnsafe_def drop_map)
  have ms: "methodstart chan EMPTY_FRAME_METHOD_PAYLOAD_SIZE method_id w0 =
            Inr (w0 \<lparr> wbuffer := h @ [mem 11], woffset := 11 \<rparr>)"
    using methodstart_Inr [of chan 4 method_id w0] d assms
    by (simp add: EMPTY_FRAME_METHOD_PAYLOAD_SIZE_def h_def w0 allocUnsafe_def)
  have fe: "frameend (w0 \<lparr> wbuffer := h @ [mem 11], woffset := 11 \<rparr>) =
            Inr (w0 \<lparr> wbuffer := h @ [206], woffset := 12 \<rparr>)"
    using uint8_static_prefix [of "w0 \<lparr> wbuffer := h @ [mem 11], woffset := 11 \<rparr>" h "[mem 11]" 206]
    by (simp add: frameend_def FRAME_CONST_frame_end_def w0 lh)
  show ?thesis
    unfolding writeVoid_def Let_def w0_def [symmetric] ms
    by (simp add: fe) (simp add: w0 h_def)
qed

lemma writeBodyOne_frame:
  assumes "chan < 65536" "length body < 4294967296"
  shows "writeBodyOne mem socket chan body =
     Inr (writeSocket socket
       \<lparr> wbuffer = frame_envelope 3 chan (length body) @ body @ [206], woffset = 7,
         dynamic = False, wmem = mem \<rparr>)"
proof -
  define n where "n = length body"
  define w0 where "w0 = BufferWriter_new mem (EMPTY_FRAME_SIZE + length body) False"
  define h where "h = frame_envelope 3 chan n"
  define junk where "junk = drop 7 (wbuffer w0)"
  have lh: "length h = 7" by (simp add: h_def)
  have w0: "w0 = \<lparr> wbuffer = allocUnsafe mem (8 + n), woffset = 0, dynamic = False, wmem = mem \<rparr>"
    by (simp add: w0_def BufferWriter_new_def EMPTY_FRAME_SIZE_def n_def)
  have lj: "length junk = n + 1" by (simp add: junk_def w0 allocUnsafe_def)
  have fs: "framestart FRAME_TYPES_frame_body chan (length body) w0 =
            Inr (w0 \<lparr> wbuffer := h @ junk, woffset := 7 \<rparr>)"
    using framestart_Inr [of 3 chan n w0] assms
    by (simp add: FRAME_TYPES_frame_body_def h_def junk_def n_def [symmetric]) (simp add: w0 allocUnsafe_def)
  have bs: "Buffer_set (h @ junk) body 7 = Inr (h @ body @ drop n junk)"
    using write_at_prefix [of h junk body] lj lh by (simp add: Buffer_set_def n_def)
  obtain x where x: "drop n junk = [x]"
    using lj by (cases "drop n junk") (auto dest: arg_cong [where f = length])
  have "writeUIntBE ((h @ body) @ [x]) 206 (7 + n) 1 = Inr ((h @ body) @ be_bytes 1 206 @ drop 1 [x])"
    by (rule write_prefix_Inr) (simp_all add: lh n_def)
  then have we: "writeUInt8 (h @ body @ [x]) FRAME_CONST_frame_end (7 + length body) = Inr (h @ body @ [206])"
    by (simp add: writeUInt8_def FRAME_CONST_frame_end_def n_def)
  show ?thesis
    unfolding writeBodyOne_def Let_def w0_def [symmetric] fs
    by (simp add: bs x we) (simp add: w0 h_def n_def)
qed

lemma dynamic_frame_tail:
  assumes fe: "frameend w2 = Inr w3" and sl: "setframelength w3 = Inr w4"
  shows "length (take (woffset w4) (wbuffer w4)) = 8 + frame_payload_size (take (woffset w4) (wbuffer w4))
         \<and> last (take (woffset w4) (wbuffer w4)) = 206"
proof -
  define grown where "grown = (if dynamic w2 \<and> woffset w2 + 1 > length (wbuffer w2)
       then wbuffer w2 @ allocUnsafe (wmem w2) (1 + BUFFER_INC) else wbuffer w2)"
  define o2 where "o2 = woffset w2"
  define b3 where "b3 = write_at grown o2 [206]"
  from fe have rng: "o2 + 1 \<le> length grown" and w3: "w3 = w2 \<lparr> wbuffer := b3, woffset := o2 + 1 \<rparr>"
    by (auto simp: frameend_def BufferWriter_uint8_def safewrite_def Let_def writeUInt8_def
        writeUIntBE_def FRAME_CONST_frame_end_def grown_def o2_def b3_def split: if_splits)
  have lb3: "length b3 = length grown" using rng by (simp add: b3_def length_write_at)
  define b4 where "b4 = write_at b3 3 (be_bytes 4 (o2 + 1 - 8))"
  from sl have o8: "8 \<le> o2 + 1" and lt: "o2 + 1 - 8 < 4294967296" and w4: "w4 = w3 \<lparr> wbuffer := b4 \<rparr>"
    by (auto simp: setframelength_def w3 EMPTY_FRAME_SIZE_def writeUInt32BE_def writeUIntBE_def
        b4_def split: if_splits)
  have lb4: "length b4 = length b3" using rng lb3 o8 by (simp add: b4_def length_write_at)
  define f where "f = take (o2 + 1) b4"
  have lf: "length f = o2 + 1" using lb4 lb3 rng by (simp add: f_def)
  have "take 4 (drop 3 f) = take 4 (drop 3 b4)"
    using o8 by (simp add: f_def drop_take)
  also have "\<dots> = be_bytes 4 (o2 + 1 - 8)"
    using take_drop_write_at [of 3 "be_bytes 4 (o2 + 1 - 8)" b3] rng lb3 o8 by (simp add: b4_def)
  finally have ps: "frame_payload_size f = o2 + 1 - 8"
    using be_value_be_bytes [of "o2 + 1 - 8" 4] lt by (simp add: frame_payload_size_def)
  have "f \<noteq> []" using lf by auto
  then have "last f = f ! o2" using lf by (simp add: last_conv_nth)
  also have "\<dots> = b4 ! o2" by (simp add: f_def)
  also have "\<dots> = b3 ! o2"
    unfolding b4_def using o8 rng lb3 by (intro nth_write_at_after) simp_all
  also have "\<dots> = 206"
    using nth_write_at_in [of o2 "[206]" grown 0] rng by (simp add: b3_def)
  finally have "last f = 206" .
  moreover have "woffset w4 = o2 + 1" "wbuffer w4 = b4" by (simp_all add: w4 w3)
  ultimately show ?thesis using lf ps o8 by (simp add: f_def)
qed

lemma explicit_frame_well_formed:
  "n < 4294967296 \<Longrightarrow> length P = n \<Longrightarrow> frame_well_formed (frame_envelope t ch n @ P @ [206])"
  using explicit_frame_envelope [of n P t ch 206]
  by (simp add: frame_well_formed_def FRAME_CONST_frame_end_def)

lemma length_allocUnsafe [simp]: "length (allocUnsafe mem n) = n"
  by (simp add: allocUnsafe_def)

lemma frameend_dynamic_Inr:
  assumes "dynamic w" "woffset w \<le> length (wbuffer w)"
  shows "\<exists>w'. frameend w = Inr w' \<and> woffset w' = woffset w + 1
              \<and> woffset w' \<le> length (wbuffer w') \<and> dynamic w'"
proof -
  define grown where "grown = (if dynamic w \<and> woffset w + 1 > length (wbuffer w)
       then wbuffer w @ allocUnsafe (wmem w) (1 + BUFFER_INC) else wbuffer w)"
  have rng: "woffset w + 1 \<le> length grown"
    using assms by (auto simp: grown_def)
  have "frameend w = Inr (w \<lparr> wbuffer := write_at grown (woffset w) (be_bytes 1 206),
                                     woffset := woffset w + 1 \<rparr>)"
    unfolding frameend_def BufferWriter_uint8_def safewrite_def Let_def grown_def [symmetric]
    using rng by (simp add: writeUInt8_def writeUIntBE_def FRAME_CONST_frame_end_def)
  then show ?thesis using rng assms(1) by (simp add: length_write_at)
qed

lemma setframelength_Inr:
  assumes "8 \<le> woffset w" "woffset w \<le> length (wbuffer w)" "woffset w - 8 < 4294967296"
  shows "\<exists>w'. setframelength w = Inr w'"
  using assms
  by (simp add: setframelength_def EMPTY_FRAME_SIZE_def writeUInt32BE_def writeUIntBE_def)

lemma API_dynamic_method_succeeds:
  assumes "chan < 65536" "method_id < 4294967296" "11 \<le> initial_size"
  shows "\<exists>socket'. API_dynamic_method mem initial_size method_id Inr socket chan = Inr socket'"
proof -
  define w0 where "w0 = BufferWriter_new mem initial_size True"
  have l0: "11 \<le> length (wbuffer w0)" using assms(3)
    by (simp add: w0_def BufferWriter_new_def allocUnsafe_def)
  define w1 where "w1 = w0 \<lparr> wbuffer := frame_envelope 1 chan 0
                                   @ be_bytes 4 method_id @ drop 11 (wbuffer w0), woffset := 11 \<rparr>"
  have ms: "methodstart chan 0 method_id w0 = Inr w1"
    using methodstart_Inr [of chan 0 method_id w0] assms l0 by (simp add: w1_def)
  have "dynamic w1" "woffset w1 \<le> length (wbuffer w1)" "woffset w1 = 11"
    using l0 by (simp_all add: w1_def w0_def BufferWriter_new_def)
  with frameend_dynamic_Inr [of w1] obtain w3 where
    fe: "frameend w1 = Inr w3" and o3: "woffset w3 = 12" "woffset w3 \<le> length (wbuffer w3)"
    by auto
  with setframelength_Inr [of w3] obtain w4 where sl: "setframelength w3 = Inr w4" by auto
  show ?thesis
    unfolding API_dynamic_method_def Let_def w0_def [symmetric] by (simp add: ms fe sl)
qed

lemma frameend_dynamic: "frameend w = Inr w' \<Longrightarrow> dynamic w' = dynamic w"
  by (auto simp: frameend_def BufferWriter_uint8_def safewrite_def Let_def split: sum.splits)

lemma setframelength_dynamic: "setframelength w = Inr w' \<Longrightarrow> dynamic w' = dynamic w"
  by (auto simp: setframelength_def split: sum.splits if_splits)

lemma methodstart_dynamic: "methodstart ch sz m w = Inr w' \<Longrightarrow> dynamic w' = dynamic w"
  by (auto simp: methodstart_def framestart_def split: sum.splits)

lemma API_dynamic_method_frame:
  assumes kd: "keeps_dynamic encode"
    and ok: "API_dynamic_method mem initial_size method_id encode socket chan = Inr socket'"
    and op: "isSocketOpened socket"
  shows "\<exists>f. socket' = socket \<lparr> written := written socket @ [f] \<rparr> \<and> frame_well_formed f"
proof -
  from ok obtain w1 w2 w3 w4 where
    ms: "methodstart chan 0 method_id (BufferWriter_new mem initial_size True) = Inr w1"
    and en: "encode w1 = Inr w2" and fe: "frameend w2 = Inr w3"
    and sl: "setframelength w3 = Inr w4" and s': "socket' = writeSocket socket w4"
    by (auto simp: API_dynamic_method_def Let_def split: sum.splits)
  have "dynamic w1" using methodstart_dynamic [OF ms] by (simp add: BufferWriter_new_def)
  then have "dynamic w2" using kd en by (auto simp: keeps_dynamic_def)
  then have dyn: "dynamic w4"
    using frameend_dynamic [OF fe] setframelength_dynamic [OF sl] by simp
  define f where "f = take (woffset w4) (wbuffer w4)"
  from dynamic_frame_tail [OF fe sl]
  have 1: "length f = 8 + frame_payload_size f" and 2: "last f = 206" by (simp_all add: f_def)
  have "length (frame_payload f) = frame_payload_size f"
    using 1 by (simp add: frame_payload_def)
  then have "frame_well_formed f"
    using 1 2 by (simp add: frame_well_formed_def FRAME_CONST_frame_end_def)
  moreover have "socket' = socket \<lparr> written := written socket @ [f] \<rparr>"
    using s' dyn op by (simp add: writeSocket_def f_def)
  ultimately show ?thesis by blast
qed

text \<open>
  C8, as amended. On an open socket, with the channel, the method id and the body
  length in the range of their fields: \<open>writeHeartbeat\<close>, \<open>writeVoid\<close> and
  \<open>writeBodyOne\<close> each write one frame to the socket, and so does every dynamically
  sized method call that returns (\<open>methodstart\<close>, the argument writes, \<open>frameend\<close>,
  \<open>setframelength\<close>). Each such frame is exactly \<open>8 + payload_size\<close> octets long (a
  seven-octet envelope, the payload, the frame-end octet), its size field at offset 3
  is the length of its payload, and its last octet is \<open>0xCE\<close>. The payload of a
  heartbeat is empty, that of \<open>writeVoid\<close> is the method id, that of \<open>writeBodyOne\<close> is
  the body.
\<close>

theorem emitted_frame_envelope:
  assumes "isSocketOpened socket" "chan < 65536" "method_id < 4294967296"
      and "length body < 4294967296"
  shows "(\<exists>f. writeHeartbeat mem socket = Inr (socket \<lparr> written := written socket @ [f] \<rparr>)
              \<and> frame_well_formed f \<and> frame_payload f = [])
       \<and> (\<exists>f. writeVoid mem method_id socket chan
                = Inr (socket \<lparr> written := written socket @ [f] \<rparr>)
              \<and> frame_well_formed f \<and> frame_payload f = be_bytes 4 method_id)
       \<and> (\<exists>f. writeBodyOne mem socket chan body
                = Inr (socket \<lparr> written := written socket @ [f] \<rparr>)
              \<and> frame_well_formed f \<and> frame_payload f = body)
       \<and> (\<forall>initial_size encode socket'.
             keeps_dynamic encode
             \<and> API_dynamic_method mem initial_size method_id encode socket chan = Inr socket'
             \<longrightarrow> (\<exists>f. socket' = socket \<lparr> written := written socket @ [f] \<rparr>
                      \<and> frame_well_formed f))"
proof (intro conjI allI impI)
  show "\<exists>f. writeHeartbeat mem socket = Inr (socket \<lparr> written := written socket @ [f] \<rparr>)
              \<and> frame_well_formed f \<and> frame_payload f = []"
    using assms(1) explicit_frame_well_formed [of 0 "[]" 8 0] explicit_frame_envelope(4) [of 0 "[]" 8 0 206]
    by (intro exI [of _ "frame_envelope 8 0 0 @ [] @ [206]"])
       (simp add: writeHeartbeat_frame writeSocket_def)
  show "\<exists>f. writeVoid mem method_id socket chan
                = Inr (socket \<lparr> written := written socket @ [f] \<rparr>)
              \<and> frame_well_formed f \<and> frame_payload f = be_bytes 4 method_id"
    using assms(1) explicit_frame_well_formed [of 4 "be_bytes 4 method_id" 1 chan]
      explicit_frame_envelope(4) [of 4 "be_bytes 4 method_id" 1 chan 206]
    by (intro exI [of _ "frame_envelope 1 chan 4 @ be_bytes 4 method_id @ [206]"])
       (simp add: writeVoid_frame [OF assms(2,3)] writeSocket_def del: be_bytes.simps)
  show "\<exists>f. writeBodyOne mem socket chan body
                = Inr (socket \<lparr> written := written socket @ [f] \<rparr>)
              \<and> frame_well_formed f \<and> frame_payload f = body"
    using assms(1) explicit_frame_well_formed [of "length body" body 3 chan]
      explicit_frame_envelope(4) [of "length body" body 3 chan 206] assms(4)
    by (intro exI [of _ "frame_envelope 3 chan (length body) @ body @ [206]"])
       (simp add: writeBodyOne_frame [OF assms(2,4)] writeSocket_def)
next
  fix initial_size encode socket'
  assume "keeps_dynamic encode
          \<and> API_dynamic_method mem initial_size method_id encode socket chan = Inr socket'"
  then show "\<exists>f. socket' = socket \<lparr> written := written socket @ [f] \<rparr> \<and> frame_well_formed f"
    using API_dynamic_method_frame assms(1) by blast
qed

theorem emitted_frame_envelope_witness:
  "(\<exists>f. writeHeartbeat (\<lambda>_. 0) socket0 = Inr (socket0 \<lparr> written := written socket0 @ [f] \<rparr>)
        \<and> frame_well_formed f \<and> frame_payload f = [])
   \<and> (\<exists>f. writeVoid (\<lambda>_. 0) 1310761 socket0 1
          = Inr (socket0 \<lparr> written := written socket0 @ [f] \<rparr>)
        \<and> frame_well_formed f \<and> frame_payload f = be_bytes 4 1310761)
   \<and> (\<exists>f. writeBodyOne (\<lambda>_. 0) socket0 1 [1, 2, 3]
          = Inr (socket0 \<lparr> written := written socket0 @ [f] \<rparr>)
        \<and> frame_well_formed f \<and> frame_payload f = [1, 2, 3])
   \<and> (\<exists>f. API_dynamic_method (\<lambda>_. 0) 12 1310761 Inr socket0 1
          = Inr (socket0 \<lparr> written := written socket0 @ [f] \<rparr>)
        \<and> frame_well_formed f)"
proof -
  have 1: "isSocketOpened socket0" by (simp add: socket0_def)
  have 2: "(1::nat) < 65536" "(1310761::nat) < 4294967296" "length [1, 2, 3 :: byte] < 4294967296"
    by simp_all
  note th = emitted_frame_envelope [OF 1 2, of "\<lambda>_. 0"]
  have kd: "keeps_dynamic Inr" by (simp add: keeps_dynamic_def)
  obtain s' where s': "API_dynamic_method (\<lambda>_. 0) 12 1310761 Inr socket0 1 = Inr s'"
    using API_dynamic_method_succeeds [of 1 1310761 12 "\<lambda>_. 0" socket0] by auto
  with th kd have "\<exists>f. s' = socket0 \<lparr> written := written socket0 @ [f] \<rparr> \<and> frame_well_formed f"
    by blast
  with s' th show ?thesis by auto
qed

lemma be_bytes_2: "be_bytes 2 v = [of_nat (v div 256), of_nat v]"
proof -
  have "be_bytes (Suc (Suc 0)) v = [of_nat (v div 256), of_nat v]" by simp
  then show ?thesis by (simp only: numeral_2_eq_2)
qed

lemma be_bytes_4:
  "be_bytes 4 v = [of_nat (v div 16777216), of_nat (v div 65536), of_nat (v div 256), of_nat v]"
proof -
  have "be_bytes (Suc (Suc (Suc (Suc 0)))) v
        = [of_nat (v div 16777216), of_nat (v div 65536), of_nat (v div 256), of_nat v]" by simp
  moreover have "(4::nat) = Suc (Suc (Suc (Suc 0)))" by simp
  ultimately show ?thesis by (simp only:)
qed

lemma frame_envelope_8_0_0: "frame_envelope 8 0 0 = [8, 0, 0, 0, 0, 0, 0]"
  by (simp add: frame_envelope_def be_bytes_2 be_bytes_4)

text \<open>
  C8, the claim as stated fails: the heartbeat frame is 8 octets long and its payload
  size is 0, so its length is not \<open>8 + payload_size + 1\<close>.
\<close>

theorem heartbeat_frame_is_8_octets:
  "writeHeartbeat (\<lambda>_. 0) socket0 = Inr (socket0 \<lparr> written := [[8, 0, 0, 0, 0, 0, 0, 206]] \<rparr>)
   \<and> frame_payload_size [8, 0, 0, 0, 0, 0, 0, 206] = 0
   \<and> length [8, 0, 0, 0, 0, 0, 0, 206 :: byte] \<noteq> 8 + frame_payload_size [8, 0, 0, 0, 0, 0, 0, 206] + 1"
proof -
  have "frame_payload_size [8, 0, 0, 0, 0, 0, 0, 206] = 0"
    by (simp add: frame_payload_size_def)
  then show ?thesis
    by (simp add: writeHeartbeat_frame frame_envelope_8_0_0 writeSocket_def socket0_def)
qed

section \<open>The property codec\<close>

lemma allocUnsafe_4: "allocUnsafe mem 4 = [mem 0, mem 1, mem 2, mem 3]"
  by (simp add: allocUnsafe_def upt_rec numeral_2_eq_2 numeral_3_eq_3)

lemma shortstr_a_written:
  "BufferWriter_shortstr [97] (BufferWriter_new mem 4 False)
   = Inr \<lparr> wbuffer = [1, 97, mem 2, mem 3], woffset = 2, dynamic = False, wmem = mem \<rparr>"
  by (simp add: BufferWriter_shortstr_def safewrite_def BufferWriter_new_def allocUnsafe_4
      writeUInt8_def writeUIntBE_def write_at_def Buffer_write_def)

lemma flag_written_last:
  "BufferWriter_uint16 32768
     \<lparr> wbuffer = [1, 97, mem 2, mem 3], woffset = 2, dynamic = False, wmem = mem \<rparr>
   = Inr \<lparr> wbuffer = [1, 97, 128, 0], woffset = 4, dynamic = False, wmem = mem \<rparr>"
  by (simp add: BufferWriter_uint16_def safewrite_def writeUInt16BE_def
      writeUIntBE_def write_at_def be_bytes_2)

lemma properties_written:
  "BufferWriter_properties [(''content_type'', m_shortstr)] [(''content_type'', String [97])]
     (BufferWriter_new mem 4 False)
   = Inr \<lparr> wbuffer = [1, 97, 128, 0], woffset = 4, dynamic = False, wmem = mem \<rparr>"
  by (simp add: BufferWriter_properties_def BufferWriter_call_def shortstr_a_written
      BITS_BASIC_def flag_written_last)

lemma properties_read:
  "BufferReader_properties [(''content_type'', m_shortstr)] [] (BufferReader_new [1, 97, 128, 0])
   = Inr ([], \<lparr> rbuffer = [1, 97, 128, 0], roffset = 2 \<rparr>)"
  by (simp add: BufferReader_properties_def BufferReader_uint16_def BufferReader_new_def
      readUInt16BE_def readUIntBE_def BITS_BASIC_def)

text \<open>
  C4. The claim: \<open>BufferReader.properties\<close> after \<open>BufferWriter.properties\<close> is the
  identity for every subset of the property fields. Evaluated on the code: for the
  properties \<open>{content_type: "a"}\<close> the writer emits the value first and the flag last
  (octets \<open>01 61 80 00\<close>); the reader takes the first two octets as the flag, finds the
  \<open>content_type\<close> bit clear, and returns the empty object.
\<close>

theorem properties_roundtrip_loses_content_type:
  "properties_roundtrip mem 4 [(''content_type'', m_shortstr)] [(''content_type'', String [97])]
   = Inr []"
  by (simp add: properties_roundtrip_def properties_written properties_read)

text \<open>The same evaluation on zeroed memory.\<close>

theorem properties_roundtrip_loses_content_type_witness:
  "properties_roundtrip (\<lambda>_. 0) 4 [(''content_type'', m_shortstr)]
     [(''content_type'', String [97])]
   = Inr []"
  by (rule properties_roundtrip_loses_content_type)

section \<open>DecodeStream\<close>

lemma frame_start_of_body_frame:
  "decodeframestart (BufferReader_new (3 # 0 # 1 # 0 # 0 # 0 # 2 # rest))
   = Inr (\<lparr> fs_frame_type = 3, fs_channel = 1, fs_size = 2 \<rparr>,
          \<lparr> rbuffer = 3 # 0 # 1 # 0 # 0 # 0 # 2 # rest, roffset = 7 \<rparr>)"
  by (simp add: decodeframestart_def BufferReader_new_def BufferReader_uint8_def
      BufferReader_uint16_def BufferReader_uint32_def readUInt8_def readUInt16BE_def
      readUInt32BE_def readUIntBE_def)

lemma length_body_frame: "length body_frame_AA_BB = 10"
  by (simp add: body_frame_AA_BB_def)

lemma whole_frame_decoded:
  "1 \<in> set ids \<Longrightarrow> DecodeStream_decode DECODERS ids body_frame_AA_BB this
   = (None, this \<lparr> dispatched := dispatched this @ [handle_body 1 [0xAA, 0xBB]] \<rparr>)"
  unfolding DecodeStream_decode_def body_frame_AA_BB_def frame_start_of_body_frame
  by (simp add: decode_loop.simps decode_frame_def readUInt8_def readUIntBE_def
      FRAME_CONST_frame_end_def FRAME_TYPES_frame_method_def FRAME_TYPES_frame_body_def
      EMPTY_FRAME_SIZE_def)

lemma partial_frame_decoded:
  "DecodeStream_decode DECODERS ids (take 9 body_frame_AA_BB) this = (None, this)"
  unfolding DecodeStream_decode_def body_frame_AA_BB_def
  using frame_start_of_body_frame [of "[0xAA, 0xBB]"]
  by (simp add: decode_loop.simps)

lemma whole_frame_written:
  assumes "1 \<in> set ids"
  shows "DecodeStream_writevAsync DECODERS ids [body_frame_AA_BB] DecodeStream_new
     = (None, \<lparr> cache = None, decode_is_init = False,
                dispatched = [handle_body 1 [0xAA, 0xBB]] \<rparr>)"
  by (simp add: DecodeStream_writevAsync_def DecodeStream_init_def whole_frame_decoded [OF assms]
      DecodeStream_new_def EMPTY_FRAME_SIZE_def length_body_frame)

lemma first_nine_written:
  "DecodeStream_writevAsync DECODERS ids [take 9 body_frame_AA_BB] DecodeStream_new
     = (None, \<lparr> cache = None, decode_is_init = False, dispatched = [] \<rparr>)"
  by (simp add: DecodeStream_writevAsync_def DecodeStream_init_def partial_frame_decoded
      DecodeStream_new_def EMPTY_FRAME_SIZE_def length_body_frame del: take_Cons_numeral)

lemma last_one_written:
  "DecodeStream_writevAsync DECODERS ids [drop 9 body_frame_AA_BB]
      \<lparr> cache = None, decode_is_init = False, dispatched = [] \<rparr>
     = (None, \<lparr> cache = Some [0xCE], decode_is_init = False, dispatched = [] \<rparr>)"
  by (simp add: DecodeStream_writevAsync_def EMPTY_FRAME_SIZE_def body_frame_AA_BB_def)

lemma writes_whole_and_split:
  assumes "1 \<in> set ids"
  shows "DecodeStream_writes DECODERS ids [[body_frame_AA_BB]] DecodeStream_new
     = (None, \<lparr> cache = None, decode_is_init = False,
                dispatched = [handle_body 1 [0xAA, 0xBB]] \<rparr>)"
    and "DecodeStream_writes DECODERS ids
       [[take 9 body_frame_AA_BB], [drop 9 body_frame_AA_BB]] DecodeStream_new
     = (None, \<lparr> cache = Some [0xCE], decode_is_init = False, dispatched = [] \<rparr>)"
  by (simp_all add: whole_frame_written [OF assms] first_nine_written last_one_written)

text \<open>
  C1. The claim: however the byte stream is split into chunks, the demuxer dispatches
  the frames it dispatches when the stream arrives whole, keeping every byte not yet
  dispatched in the cache. Evaluated on the code, for any decoder table and the channel
  1 open: the 10-octet body frame \<open>03 0001 00000002 AA BB CE\<close> arriving whole is
  dispatched as \<open>handle_body\<close> on channel 1; arriving as 9 octets and then 1, nothing
  is dispatched: \<open>_decode\<close> leaves the loop with the reader 7 octets into the 9,
  \<open>buffer.length === reader.offset\<close> is false, the cache stays deleted and the 9
  octets are lost; the last octet alone is cached.
\<close>

theorem partial_frame_is_dropped:
  "DecodeStream_writes DECODERS [1] [[body_frame_AA_BB]] DecodeStream_new
     = (None, \<lparr> cache = None, decode_is_init = False,
                dispatched = [handle_body 1 [0xAA, 0xBB]] \<rparr>)
   \<and> DecodeStream_writes DECODERS [1]
       [[take 9 body_frame_AA_BB], [drop 9 body_frame_AA_BB]] DecodeStream_new
     = (None, \<lparr> cache = Some [0xCE], decode_is_init = False, dispatched = [] \<rparr>)"
  using writes_whole_and_split [of "[1]" DECODERS] by simp

text \<open>The same evaluation with an empty decoder table.\<close>

theorem partial_frame_is_dropped_witness:
  "DecodeStream_writes (\<lambda>_. None) [1] [[body_frame_AA_BB]] (DecodeStream_new :: unit DecodeStream)
     = (None, \<lparr> cache = None, decode_is_init = False,
                dispatched = [handle_body 1 [0xAA, 0xBB]] \<rparr>)
   \<and> DecodeStream_writes (\<lambda>_. None) [1]
       [[take 9 body_frame_AA_BB], [drop 9 body_frame_AA_BB]] (DecodeStream_new :: unit DecodeStream)
     = (None, \<lparr> cache = Some [0xCE], decode_is_init = False, dispatched = [] \<rparr>)"
  by (rule partial_frame_is_dropped)

section \<open>The callback registry of a channel\<close>

subsection \<open>Association lists\<close>

lemma map_fst_map_modify [simp]: "map fst (map_modify k f m) = map fst m"
  by (induction m) auto

lemma map_of_map_modify:
  "map_of (map_modify k f m) k' = (if k' = k then map_option f (map_of m k) else map_of m k')"
  by (induction m) auto

lemma map_of_clear:
  "map_of (clear ms r rc) m
   = map_option (\<lambda>cbs. if m \<in> set ms then removeAll r cbs else cbs) (map_of rc m)"
proof (induction ms arbitrary: rc)
  case Nil
  then show ?case by (simp add: option.map_ident)
next
  case (Cons a ms)
  show ?case
    by (cases "map_of rc m") (auto simp: Cons map_of_map_modify)
qed

lemma map_fst_clear [simp]: "map fst (clear ms r rc) = map fst rc"
  by (induction ms arbitrary: rc) auto

lemma callbacks_set_idem [simp]: "callbacks_set r (callbacks_set r cbs) = callbacks_set r cbs"
  by (simp add: callbacks_set_def)

lemma map_of_register:
  "map_of (register ms r rc) m
   = (if m \<in> set ms
      then Some (callbacks_set r (case map_of rc m of None \<Rightarrow> [] | Some cbs \<Rightarrow> cbs))
      else map_of rc m)"
proof (induction ms arbitrary: rc)
  case Nil
  then show ?case by simp
next
  case (Cons a ms)
  show ?case
  proof (cases "map_of rc a")
    case None
    then show ?thesis
      by (cases "map_of rc m") (auto simp: Cons map_add_def)
  next
    case (Some cbs)
    then show ?thesis
      by (cases "map_of rc m") (auto simp: Cons map_of_map_modify)
  qed
qed

lemma distinct_keys_register:
  "distinct (map fst rc) \<Longrightarrow> distinct (map fst (register ms r rc))"
proof (induction ms arbitrary: rc)
  case Nil
  then show ?case by simp
next
  case (Cons a ms)
  show ?case
  proof (cases "map_of rc a")
    case None
    then have "a \<notin> fst ` set rc" by (simp add: map_of_eq_None_iff)
    with Cons.prems have "distinct (map fst (rc @ [(a, callbacks_set r [])]))" by simp
    from Cons.IH [OF this] None show ?thesis by simp
  next
    case (Some cbs)
    with Cons show ?thesis by simp
  qed
qed

subsection \<open>The registry invariant\<close>

lemma pending_refs_eq:
  "distinct (map fst (request_callbacks this)) \<Longrightarrow> pending_refs this = (\<Union>m. set (pending m this))"
proof (intro set_eqI iffI)
  fix r assume d: "distinct (map fst (request_callbacks this))" and "r \<in> pending_refs this"
  then obtain m cbs where "(m, cbs) \<in> set (request_callbacks this)" "r \<in> set cbs"
    by (auto simp: pending_refs_def)
  then have "map_of (request_callbacks this) m = Some cbs" "r \<in> set cbs"
    using d by simp_all
  then have "r \<in> set (pending m this)" by (simp add: pending_def)
  then show "r \<in> (\<Union>m. set (pending m this))" by blast
next
  fix r assume "r \<in> (\<Union>m. set (pending m this))"
  then obtain m where "r \<in> set (pending m this)" by blast
  then obtain cbs where "map_of (request_callbacks this) m = Some cbs" "r \<in> set cbs"
    by (cases "map_of (request_callbacks this) m") (simp_all add: pending_def)
  then show "r \<in> pending_refs this"
    by (auto simp: pending_refs_def dest: map_of_SomeD)
qed

lemma registry_okD:
  assumes "registry_ok this" "r \<in> set (pending m this)"
  shows "r < length (closures this)" "\<not> cl_called (closures this ! r)"
    "m \<in> set (cl_responses (closures this ! r))"
  using assms by (auto simp: registry_ok_def)

lemma pending_callback:
  assumes "registry_ok this"
  shows "pending m (callback r outcome this) = removeAll r (pending m this)"
proof (cases "r < length (closures this) \<and> \<not> cl_called (closures this ! r)")
  case True
  show ?thesis
  proof (cases "m \<in> set (cl_responses (closures this ! r))")
    case True
    with \<open>r < length (closures this) \<and> \<not> cl_called (closures this ! r)\<close> show ?thesis
      by (simp add: callback_def pending_def map_of_clear split: option.splits)
  next
    case False
    then have "r \<notin> set (pending m this)" using registry_okD(3) [OF assms] by blast
    with False True show ?thesis
      by (simp add: callback_def pending_def map_of_clear split: option.splits)
  qed
next
  case False
  then have "r \<notin> set (pending m this)" using registry_okD(1,2) [OF assms] by blast
  with False show ?thesis by (auto simp: callback_def)
qed

lemma effects_callback_pending:
  assumes "registry_ok this" "r \<in> set (pending m this)"
  shows "effects (callback r outcome this) = effects this @ [Settled r outcome]"
  using registry_okD(1,2) [OF assms] by (simp add: callback_def)

lemma effects_callback_cases:
  "effects (callback r outcome this) = effects this
   \<or> effects (callback r outcome this) = effects this @ [Settled r outcome]"
  by (simp add: callback_def)

lemma sorted_removeAll: "sorted xs \<Longrightarrow> sorted (removeAll x xs)"
  by (induction xs) auto

lemma registry_ok_callback:
  assumes "registry_ok this"
  shows "registry_ok (callback r outcome this)"
  unfolding registry_ok_def
proof (intro conjI allI ballI)
  show "distinct (map fst (request_callbacks (callback r outcome this)))"
    using assms by (simp add: callback_def registry_ok_def)
next
  fix m
  show "distinct (pending m (callback r outcome this))"
    using assms by (simp add: pending_callback registry_ok_def distinct_removeAll)
  show "sorted (pending m (callback r outcome this))"
    using assms by (simp add: pending_callback registry_ok_def sorted_removeAll)
next
  fix m r' assume "r' \<in> set (pending m (callback r outcome this))"
  then have in': "r' \<in> set (pending m this)" and ne: "r' \<noteq> r"
    using assms by (simp_all add: pending_callback)
  note d = registry_okD [OF assms in']
  show "r' < length (closures (callback r outcome this))"
    using d by (simp add: callback_def)
  show "\<not> cl_called (closures (callback r outcome this) ! r')"
    using d ne by (simp add: callback_def)
  show "m \<in> set (cl_responses (closures (callback r outcome this) ! r'))"
    using d ne by (simp add: callback_def)
qed

lemma pending_call_api_tick:
  assumes "registry_ok this"
  shows "pending m (call_api_tick factory now responses this)
         = (if m \<in> set responses then pending m this @ [length (closures this)]
            else pending m this)"
proof -
  have "length (closures this) \<notin> set (pending m this)"
    using registry_okD(1) [OF assms] by blast
  then have "callbacks_set (length (closures this)) (pending m this)
             = pending m this @ [length (closures this)]"
    by (simp add: callbacks_set_def)
  moreover have "pending m (call_api_tick factory now responses this)
    = (if m \<in> set responses then callbacks_set (length (closures this)) (pending m this)
       else pending m this)"
    by (simp add: call_api_tick_def Let_def pending_def map_of_register)
  ultimately show ?thesis by simp
qed

lemma registry_ok_call_api_tick:
  assumes "registry_ok this"
  shows "registry_ok (call_api_tick factory now responses this)"
  unfolding registry_ok_def
proof (intro conjI allI ballI)
  show "distinct (map fst (request_callbacks (call_api_tick factory now responses this)))"
    using assms by (simp add: call_api_tick_def Let_def registry_ok_def distinct_keys_register)
next
  fix m
  have lt: "\<forall>r \<in> set (pending m this). r < length (closures this)"
    using registry_okD(1) [OF assms] by blast
  show "distinct (pending m (call_api_tick factory now responses this))"
    using assms lt by (auto simp: pending_call_api_tick [OF assms] registry_ok_def)
  show "sorted (pending m (call_api_tick factory now responses this))"
    using assms lt by (auto simp: pending_call_api_tick [OF assms] registry_ok_def sorted_append less_imp_le)
next
  fix m r assume r: "r \<in> set (pending m (call_api_tick factory now responses this))"
  have cl: "closures (call_api_tick factory now responses this)
            = closures this @ [\<lparr> cl_id = fst (generate factory now), cl_responses = responses,
                                 cl_called = False \<rparr>]"
    by (simp add: call_api_tick_def Let_def)
  consider (old) "r \<in> set (pending m this)" | (new) "r = length (closures this)" "m \<in> set responses"
    using r by (auto simp: pending_call_api_tick [OF assms] split: if_splits)
  then show "r < length (closures (call_api_tick factory now responses this))"
  proof cases
    case old
    from registry_okD(1) [OF assms old] show ?thesis by (simp add: cl)
  next
    case new
    then show ?thesis by (simp add: cl)
  qed
  show "\<not> cl_called (closures (call_api_tick factory now responses this) ! r)"
    using r registry_okD(1,2) [OF assms, of r m]
    by (auto simp: pending_call_api_tick [OF assms] cl nth_append split: if_splits)
  show "m \<in> set (cl_responses (closures (call_api_tick factory now responses this) ! r))"
    using r registry_okD(1,3) [OF assms, of r m]
    by (auto simp: pending_call_api_tick [OF assms] cl nth_append split: if_splits)
qed

subsection \<open>Incoming methods\<close>

lemma js_sort_objects_id [simp]: "js_sort_objects keys = keys"
proof (induction keys)
  case Nil
  then show ?case by (simp add: js_sort_objects_def)
next
  case (Cons k keys)
  then show ?case by (cases keys) (simp_all add: js_sort_objects_def)
qed

lemma handle_method_tick_waiter:
  assumes "\<not> destroyed this" "pending m this = r # rs"
  shows "handle_method_tick m args this = callback r (resolve m args) this"
proof -
  from assms(2) have "map_of (request_callbacks this) m = Some (r # rs)"
    by (cases "map_of (request_callbacks this) m") (simp_all add: pending_def)
  then show ?thesis using assms(1) by (simp add: handle_method_tick_def Let_def)
qed

lemma handle_method_tick_no_waiter:
  assumes "\<not> destroyed this" "pending m this = []"
  shows "handle_method_tick m args this
         = this \<lparr> effects := effects this
              @ [if m \<in> set (handlers this) then Handler m args
                 else Fatal (JsError ''Handler not found!'')] \<rparr>"
proof (cases "map_of (request_callbacks this) m")
  case None
  then show ?thesis using assms(1) by (simp add: handle_method_tick_def Let_def)
next
  case (Some cbs)
  with assms(2) have "cbs = []" by (simp add: pending_def)
  with Some show ?thesis using assms(1) by (simp add: handle_method_tick_def Let_def)
qed

lemma handle_method_tick_destroyed: "destroyed this \<Longrightarrow> handle_method_tick m args this = this"
  by (simp add: handle_method_tick_def)

lemma registry_ok_effects_update [simp]:
  "registry_ok (this \<lparr> effects := es \<rparr>) = registry_ok this"
  by (simp add: registry_ok_def pending_def)

lemma registry_ok_handle_method_tick:
  assumes "registry_ok this"
  shows "registry_ok (handle_method_tick m args this)"
proof (cases "destroyed this")
  case True
  then show ?thesis using assms by (simp add: handle_method_tick_destroyed)
next
  case False
  show ?thesis
  proof (cases "pending m this")
    case Nil
    then show ?thesis using assms False by (simp add: handle_method_tick_no_waiter)
  next
    case (Cons r rs)
    then show ?thesis
      using assms False by (simp add: handle_method_tick_waiter registry_ok_callback)
  qed
qed

subsection \<open>The rejection loops of destroy\<close>

lemma settled_refs_append [simp]: "settled_refs (xs @ ys) = settled_refs xs @ settled_refs ys"
  by (induction xs rule: settled_refs.induct) simp_all

lemma settled_refs_map [simp]: "settled_refs (map (\<lambda>r. Settled r outcome) rs) = rs"
  by (induction rs) simp_all

lemma rejection_run_refl: "registry_ok this \<Longrightarrow> rejection_run e this this"
  by (simp add: rejection_run_def)

lemma pending_refs_mono:
  assumes "registry_ok this" "registry_ok this'"
    "\<forall>m. set (pending m this') \<subseteq> set (pending m this)"
  shows "pending_refs this' \<subseteq> pending_refs this"
  using assms by (auto simp: pending_refs_eq registry_ok_def)

lemma rejection_run_trans:
  assumes ok: "registry_ok a" and ab: "rejection_run e a b" and bc: "rejection_run e b c"
  shows "rejection_run e a c"
proof -
  from ab obtain n1 where n1: "effects b = effects a @ n1"
    "n1 = map (\<lambda>r. Settled r (reject e)) (settled_refs n1)" "distinct (settled_refs n1)"
    "set (settled_refs n1) = pending_refs a - pending_refs b"
    by (auto simp: rejection_run_def)
  from bc obtain n2 where n2: "effects c = effects b @ n2"
    "n2 = map (\<lambda>r. Settled r (reject e)) (settled_refs n2)" "distinct (settled_refs n2)"
    "set (settled_refs n2) = pending_refs b - pending_refs c"
    by (auto simp: rejection_run_def)
  have okb: "registry_ok b" and okc: "registry_ok c"
    using ab bc by (simp_all add: rejection_run_def)
  have sub1: "\<forall>m. set (pending m b) \<subseteq> set (pending m a)"
    and sub2: "\<forall>m. set (pending m c) \<subseteq> set (pending m b)"
    using ab bc by (simp_all add: rejection_run_def)
  have p1: "pending_refs b \<subseteq> pending_refs a" using pending_refs_mono [OF ok okb sub1] .
  have p2: "pending_refs c \<subseteq> pending_refs b" using pending_refs_mono [OF okb okc sub2] .
  have "effects c = effects a @ (n1 @ n2)" using n1(1) n2(1) by simp
  moreover have "n1 @ n2 = map (\<lambda>r. Settled r (reject e)) (settled_refs (n1 @ n2))"
    using n1(2) n2(2) by simp
  moreover have "distinct (settled_refs (n1 @ n2))"
    using n1(3,4) n2(3,4) by auto
  moreover have "set (settled_refs (n1 @ n2)) = pending_refs a - pending_refs c"
    using n1(4) n2(4) p1 p2 by auto
  ultimately have "\<exists>new. effects c = effects a @ new
              \<and> new = map (\<lambda>r. Settled r (reject e)) (settled_refs new)
              \<and> distinct (settled_refs new)
              \<and> set (settled_refs new) = pending_refs a - pending_refs c"
    by blast
  moreover have "\<forall>m. set (pending m c) \<subseteq> set (pending m a)" using sub1 sub2 by blast
  ultimately show ?thesis
    using ab bc unfolding rejection_run_def by simp
qed

lemma rejection_run_callback:
  assumes ok: "registry_ok this" and r: "r \<in> set (pending m this)"
  shows "rejection_run e this (callback r (reject e) this)"
proof -
  let ?t = "callback r (reject e) this"
  have ok': "registry_ok ?t" using ok by (rule registry_ok_callback)
  have pend: "\<And>m'. pending m' ?t = removeAll r (pending m' this)"
    using ok by (rule pending_callback)
  have "pending_refs this - pending_refs ?t = {r}"
    using ok ok' r by (auto simp: pending_refs_eq registry_ok_def pend)
  moreover have "effects ?t = effects this @ [Settled r (reject e)]"
    using effects_callback_pending [OF ok r] .
  ultimately have "\<exists>new. effects ?t = effects this @ new
              \<and> new = map (\<lambda>r. Settled r (reject e)) (settled_refs new)
              \<and> distinct (settled_refs new)
              \<and> set (settled_refs new) = pending_refs this - pending_refs ?t"
    by (intro exI [of _ "[Settled r (reject e)]"]) simp
  moreover have "map fst (request_callbacks ?t) = map fst (request_callbacks this)"
    "destroyed ?t = destroyed this" "channel ?t = channel this"
    "handlers ?t = handlers this" "closed ?t = closed this"
    by (simp_all add: callback_def)
  ultimately show ?thesis
    unfolding rejection_run_def using ok' pend by auto
qed

lemma reject_entries_run:
  "registry_ok this \<Longrightarrow> rejection_run e this (reject_entries rs m e this)"
proof (induction rs arbitrary: this)
  case Nil
  then show ?case by (simp add: rejection_run_refl)
next
  case (Cons r rs)
  show ?case
  proof (cases "r \<in> set (pending m this)")
    case True
    let ?t = "callback r (reject e) this"
    have 1: "rejection_run e this ?t" using rejection_run_callback [OF Cons.prems True] .
    then have "registry_ok ?t" by (simp add: rejection_run_def)
    from Cons.IH [OF this] have 2: "rejection_run e ?t (reject_entries rs m e ?t)" .
    from rejection_run_trans [OF Cons.prems 1 2] True show ?thesis by simp
  next
    case False
    with Cons show ?thesis by simp
  qed
qed

lemma filter_removeAll: "filter P (removeAll r xs) = filter (\<lambda>x. x \<noteq> r \<and> P x) xs"
  by (induction xs) auto

lemma reject_entries_pending:
  "registry_ok this \<Longrightarrow>
   pending m (reject_entries rs m e this) = filter (\<lambda>x. x \<notin> set rs) (pending m this)"
proof (induction rs arbitrary: this)
  case Nil
  then show ?case by simp
next
  case (Cons r rs)
  show ?case
  proof (cases "r \<in> set (pending m this)")
    case True
    have "pending m (reject_entries rs m e (callback r (reject e) this))
          = filter (\<lambda>x. x \<notin> set rs) (removeAll r (pending m this))"
      using Cons.IH [OF registry_ok_callback [OF Cons.prems]] pending_callback [OF Cons.prems]
      by simp
    also have "\<dots> = filter (\<lambda>x. x \<notin> set (r # rs)) (pending m this)"
      by (simp add: filter_removeAll conj_commute)
    finally show ?thesis using True by simp
  next
    case False
    have "filter (\<lambda>x. x \<notin> set rs) (pending m this)
          = filter (\<lambda>x. x \<notin> set (r # rs)) (pending m this)"
      using False by (intro filter_cong) auto
    with Cons False show ?thesis by simp
  qed
qed

lemma reject_maps_run:
  "registry_ok this \<Longrightarrow> rejection_run e this (reject_maps keys e this)"
proof (induction keys arbitrary: this)
  case Nil
  then show ?case by (simp add: rejection_run_refl)
next
  case (Cons m keys)
  let ?t = "reject_entries (pending m this) m e this"
  have 1: "rejection_run e this ?t" using reject_entries_run [OF Cons.prems] .
  then have "registry_ok ?t" by (simp add: rejection_run_def)
  from Cons.IH [OF this] have 2: "rejection_run e ?t (reject_maps keys e ?t)" .
  from rejection_run_trans [OF Cons.prems 1 2] show ?case by simp
qed

lemma reject_maps_pending:
  "registry_ok this \<Longrightarrow> m \<in> set keys \<Longrightarrow> pending m (reject_maps keys e this) = []"
proof (induction keys arbitrary: this)
  case Nil
  then show ?case by simp
next
  case (Cons k keys)
  let ?t = "reject_entries (pending k this) k e this"
  have okt: "registry_ok ?t"
    using reject_entries_run [OF Cons.prems(1)] by (simp add: rejection_run_def)
  show ?case
  proof (cases "m = k")
    case True
    have "pending k ?t = []" using reject_entries_pending [OF Cons.prems(1)] by simp
    moreover have "set (pending k (reject_maps keys e ?t)) \<subseteq> set (pending k ?t)"
      using reject_maps_run [OF okt] by (simp add: rejection_run_def)
    ultimately show ?thesis using True by simp
  next
    case False
    with Cons.prems(2) have "m \<in> set keys" by simp
    from Cons.IH [OF okt this] show ?thesis by simp
  qed
qed

lemma pending_absent_key:
  "m \<notin> set (map fst (request_callbacks this)) \<Longrightarrow> pending m this = []"
  using map_of_eq_None_iff [of "request_callbacks this" m] by (simp add: pending_def)

lemma ChannelAbstract_destroy_run:
  fixes this :: "('a, 'z) ChannelAbstract_scheme" and err :: "error option"
    and socket_destroyed :: bool
  assumes ok: "registry_ok this"
  defines "e \<equiv> (case err of Some e \<Rightarrow> e
                     | None \<Rightarrow> HardError 0 connection_forced ''Channel or connection closed'')"
  defines "this1 \<equiv> (if \<not> socket_destroyed \<and> \<not> destroyed this
                        then this \<lparr> effects := effects this @ [Call_close err] \<rparr> else this)"
  shows "rejection_run e this1 (ChannelAbstract_destroy socket_destroyed err this)"
    and "pending_refs (ChannelAbstract_destroy socket_destroyed err this) = {}"
proof -
  let ?keys = "map fst (request_callbacks this1)"
  have ok1: "registry_ok this1" using ok by (simp add: this1_def)
  have eq: "ChannelAbstract_destroy socket_destroyed err this = reject_maps ?keys e this1"
    by (simp add: ChannelAbstract_destroy_def Let_def e_def this1_def)
  show run: "rejection_run e this1 (ChannelAbstract_destroy socket_destroyed err this)"
    unfolding eq using ok1 by (rule reject_maps_run)
  have "pending m (reject_maps ?keys e this1) = []" for m
  proof (cases "m \<in> set ?keys")
    case True
    then show ?thesis using reject_maps_pending [OF ok1] by blast
  next
    case False
    have "map fst (request_callbacks (reject_maps ?keys e this1)) = ?keys"
      using run by (simp add: eq rejection_run_def)
    with False show ?thesis using pending_absent_key by metis
  qed
  moreover have "registry_ok (reject_maps ?keys e this1)"
    using run by (simp add: eq rejection_run_def)
  ultimately show "pending_refs (ChannelAbstract_destroy socket_destroyed err this) = {}"
    by (simp add: eq pending_refs_eq registry_ok_def)
qed

subsection \<open>Every state of a channel\<close>

lemma registry_ok_new: "registry_ok (ChannelAbstract_new n hs)"
  by (simp add: registry_ok_def ChannelAbstract_new_def pending_def)

lemma registry_ok_destroyed_update [simp]:
  "registry_ok (this \<lparr> destroyed := d \<rparr>) = registry_ok this"
  by (simp add: registry_ok_def pending_def)

lemma registry_ok_ChannelChildAbstract_destroy:
  assumes "registry_ok this"
  shows "registry_ok (ChannelChildAbstract_destroy socket_destroyed err this)"
  using ChannelAbstract_destroy_run(1) [OF assms, where err = err and socket_destroyed = socket_destroyed]
  by (simp add: ChannelChildAbstract_destroy_def Let_def rejection_run_def)

lemma evolves_registry_ok:
  "evolves this0 this \<Longrightarrow> registry_ok this0 \<Longrightarrow> registry_ok this"
proof (induction rule: evolves.induct)
  case (start this0)
  then show ?case .
next
  case (registered this0 this responses factory now)
  then show ?case by (simp add: registry_ok_call_api_tick)
next
  case (method_handled this0 this method_id args)
  then show ?case by (simp add: registry_ok_handle_method_tick)
next
  case (send_failed this0 this r e)
  then show ?case by (simp add: registry_ok_callback)
next
  case (destroy_called this0 this socket_destroyed err)
  then show ?case by (simp add: registry_ok_ChannelChildAbstract_destroy)
qed

lemma destroyed_ChannelChildAbstract_destroy [simp]:
  "destroyed (ChannelChildAbstract_destroy socket_destroyed err this)"
  by (simp add: ChannelChildAbstract_destroy_def Let_def)

lemma evolves_destroyed:
  "evolves this0 this \<Longrightarrow> destroyed this0 \<Longrightarrow> destroyed this"
proof (induction rule: evolves.induct)
  case (start this0)
  then show ?case .
next
  case (registered this0 this responses factory now)
  then show ?case by (simp add: call_api_tick_def Let_def)
next
  case (method_handled this0 this method_id args)
  then show ?case by (simp add: handle_method_tick_destroyed)
next
  case (send_failed this0 this r e)
  then show ?case by (simp add: callback_def)
next
  case (destroy_called this0 this socket_destroyed err)
  then show ?case by simp
qed

lemma sorted_hd_Min: "sorted (x # xs) \<Longrightarrow> Min (set (x # xs)) = x"
  by (auto intro!: Min_eqI)

text \<open>
  C6. In every state of a channel that is not destroyed, a reply \<open>method_id\<close> for
  which waiters are pending resolves exactly one of them: the pending waiter of that
  reply with the least reference, that is, the one registered first. It is removed
  from the map of every reply it expected, so the next reply resolves the next waiter
  in registration order. Every pending reference is below the number of closures
  allocated, and a later \<open>call_api\<close> is appended behind all pending waiters of each
  reply it expects; this holds for any number of waiters.
\<close>

theorem replies_resolve_earliest_waiter:
  assumes ev: "evolves (ChannelAbstract_new n hs) this"
    and nd: "\<not> destroyed this"
    and ne: "pending method_id this \<noteq> []"
  shows "effects (handle_method_tick method_id args this)
           = effects this @ [Settled (Min (set (pending method_id this))) (resolve method_id args)]
       \<and> (\<forall>m. pending m (handle_method_tick method_id args this)
                = removeAll (Min (set (pending method_id this))) (pending m this))
       \<and> (\<forall>r \<in> set (pending method_id this). r < length (closures this))
       \<and> (\<forall>factory now responses.
             pending method_id (call_api_tick factory now responses this)
               = (if method_id \<in> set responses
                  then pending method_id this @ [length (closures this)]
                  else pending method_id this))"
proof -
  have ok: "registry_ok this" using evolves_registry_ok [OF ev registry_ok_new] .
  from ne obtain r rs where p: "pending method_id this = r # rs"
    by (cases "pending method_id this") auto
  have "sorted (pending method_id this)" using ok by (simp add: registry_ok_def)
  then have "sorted (r # rs)" by (simp only: p)
  then have mn: "Min (set (pending method_id this)) = r" using p sorted_hd_Min by metis
  have hm: "handle_method_tick method_id args this = callback r (resolve method_id args) this"
    using handle_method_tick_waiter [OF nd p] .
  have "r \<in> set (pending method_id this)" using p by simp
  from effects_callback_pending [OF ok this]
  have 1: "effects (handle_method_tick method_id args this)
           = effects this @ [Settled (Min (set (pending method_id this))) (resolve method_id args)]"
    by (simp add: hm mn)
  have 2: "\<forall>m. pending m (handle_method_tick method_id args this)
                = removeAll (Min (set (pending method_id this))) (pending m this)"
    by (simp add: hm mn pending_callback [OF ok])
  have 3: "\<forall>r \<in> set (pending method_id this). r < length (closures this)"
    using registry_okD(1) [OF ok] by blast
  have 4: "\<forall>factory now responses.
             pending method_id (call_api_tick factory now responses this)
               = (if method_id \<in> set responses
                  then pending method_id this @ [length (closures this)]
                  else pending method_id this)"
    using pending_call_api_tick [OF ok] by blast
  from 1 2 3 4 show ?thesis by blast
qed

lemma two_waiters_evolves: "evolves (ChannelAbstract_new 1 []) two_waiters"
  unfolding two_waiters_def by (intro evolves.registered evolves.start) simp_all

lemma two_waiters_pending:
  "pending METHODS_basic_consume_ok two_waiters = [0, 1]"
  "pending METHODS_channel_close_ok two_waiters = [0]"
  "\<not> destroyed two_waiters" "length (closures two_waiters) = 2"
  by (simp_all add: two_waiters_def call_api_tick_def Let_def pending_def ChannelAbstract_new_def
      callbacks_set_def METHODS_basic_consume_ok_def METHODS_channel_close_ok_def)

theorem replies_resolve_earliest_waiter_witness:
  "effects (handle_method_tick METHODS_basic_consume_ok () two_waiters)
     = effects two_waiters @ [Settled 0 (resolve METHODS_basic_consume_ok ())]
   \<and> pending METHODS_basic_consume_ok (handle_method_tick METHODS_basic_consume_ok () two_waiters)
     = [1]
   \<and> pending METHODS_channel_close_ok (handle_method_tick METHODS_basic_consume_ok () two_waiters)
     = []"
proof -
  have ne: "pending METHODS_basic_consume_ok two_waiters \<noteq> []"
    by (simp add: two_waiters_pending)
  from replies_resolve_earliest_waiter [OF two_waiters_evolves two_waiters_pending(3) ne, of "()"]
  show ?thesis by (simp add: two_waiters_pending)
qed

lemma count_list_distinct: "distinct xs \<Longrightarrow> x \<in> set xs \<Longrightarrow> count_list xs x = 1"
  by (induction xs) auto

lemma settled_in_map:
  "Settled r outcome \<in> set (map (\<lambda>r. Settled r (reject e)) rs) \<Longrightarrow> r \<in> set rs \<and> outcome = reject e"
  by auto

text \<open>
  C10. \<open>destroy(error)\<close> on a channel in any state adds to the effects exactly one
  settlement for every closure that was pending, and for no other; each is a rejection
  with \<open>error\<close>, or with the \<open>connection_forced\<close> error
  \<open>Channel or connection closed\<close> when no error is given. Afterwards the channel is
  destroyed and its registry is empty, and in every later state \<open>handle_method\<close>
  changes nothing: it resolves no waiter and invokes no handler.
\<close>

theorem destroy_rejects_every_pending_waiter_once:
  fixes this :: "'a ChannelAbstract" and err :: "error option" and socket_destroyed :: bool
  assumes ev: "evolves (ChannelAbstract_new n hs) this"
  defines "reject_error \<equiv> (case err of Some e \<Rightarrow> e
                     | None \<Rightarrow> HardError 0 connection_forced ''Channel or connection closed'')"
  defines "this' \<equiv> ChannelChildAbstract_destroy socket_destroyed err this"
  shows "(\<exists>new. effects this' = effects this @ new
            \<and> distinct (settled_refs new) \<and> set (settled_refs new) = pending_refs this
            \<and> (\<forall>r \<in> pending_refs this. count_list (settled_refs new) r = 1)
            \<and> (\<forall>r outcome. Settled r outcome \<in> set new \<longrightarrow> outcome = reject reject_error))
       \<and> destroyed this' \<and> pending_refs this' = {}
       \<and> (\<forall>later method_id args.
             evolves this' later \<longrightarrow> handle_method_tick method_id args later = later)"
proof -
  have ok: "registry_ok this" using evolves_registry_ok [OF ev registry_ok_new] .
  define this1 where "this1 = (if \<not> socket_destroyed \<and> \<not> destroyed this
                        then this \<lparr> effects := effects this @ [Call_close err] \<rparr> else this)"
  define this2 where "this2 = ChannelAbstract_destroy socket_destroyed err this"
  have run: "rejection_run reject_error this1 this2"
    and empty: "pending_refs this2 = {}"
    using ChannelAbstract_destroy_run [OF ok, where err = err and socket_destroyed = socket_destroyed]
    by (simp_all add: reject_error_def this1_def this2_def)
  from run obtain rej where rej: "effects this2 = effects this1 @ rej"
    "rej = map (\<lambda>r. Settled r (reject reject_error)) (settled_refs rej)"
    "distinct (settled_refs rej)" "set (settled_refs rej) = pending_refs this1 - pending_refs this2"
    by (auto simp: rejection_run_def)
  have p1: "pending_refs this1 = pending_refs this" by (simp add: this1_def pending_refs_def)
  define pre :: "'a effect list"
    where "pre = (if \<not> socket_destroyed \<and> \<not> destroyed this then [Call_close err] else [])"
  have e1: "effects this1 = effects this @ pre" by (simp add: this1_def pre_def)
  have this': "this' = this2 \<lparr> destroyed := True,
                  effects := effects this2 @ [Channels_delete (channel this2)] \<rparr>"
    by (simp add: this'_def ChannelChildAbstract_destroy_def Let_def this2_def)
  define new where "new = pre @ rej @ [Channels_delete (channel this2)]"
  have sr: "settled_refs new = settled_refs rej" by (simp add: new_def pre_def)
  have "effects this' = effects this @ new" by (simp add: this' rej(1) e1 new_def)
  moreover have "distinct (settled_refs new)" using rej(3) sr by simp
  moreover have st: "set (settled_refs new) = pending_refs this" using rej(4) sr empty p1 by simp
  moreover have "\<forall>r \<in> pending_refs this. count_list (settled_refs new) r = 1"
    using count_list_distinct rej(3) sr st by metis
  moreover have "\<forall>r outcome. Settled r outcome \<in> set new \<longrightarrow> outcome = reject reject_error"
  proof (intro allI impI)
    fix r outcome assume "Settled r outcome \<in> set new"
    then have "Settled r outcome \<in> set rej" by (auto simp: new_def pre_def split: if_splits)
    then show "outcome = reject reject_error" using rej(2) settled_in_map by metis
  qed
  ultimately have A: "\<exists>new. effects this' = effects this @ new
            \<and> distinct (settled_refs new) \<and> set (settled_refs new) = pending_refs this
            \<and> (\<forall>r \<in> pending_refs this. count_list (settled_refs new) r = 1)
            \<and> (\<forall>r outcome. Settled r outcome \<in> set new \<longrightarrow> outcome = reject reject_error)"
    by blast
  have B: "destroyed this'" by (simp add: this')
  have C: "pending_refs this' = {}" using empty by (simp add: this' pending_refs_def)
  have D: "\<forall>later method_id args.
             evolves this' later \<longrightarrow> handle_method_tick method_id args later = later"
  proof (intro allI impI)
    fix later :: "'a ChannelAbstract" and method_id args
    assume "evolves this' later"
    from evolves_destroyed [OF this B]
    show "handle_method_tick method_id args later = later"
      by (rule handle_method_tick_destroyed)
  qed
  show ?thesis by (intro conjI A B C D)
qed

lemma two_waiters_destroyed:
  "ChannelChildAbstract_destroy False None two_waiters
   = two_waiters \<lparr> request_callbacks := [(METHODS_basic_consume_ok, []), (METHODS_channel_close_ok, [])],
        destroyed := True,
        closures := map (\<lambda>c. c \<lparr> cl_called := True \<rparr>) (closures two_waiters),
        effects := effects two_waiters
          @ [Call_close None,
             Settled 0 (reject (HardError 0 connection_forced ''Channel or connection closed'')),
             Settled 1 (reject (HardError 0 connection_forced ''Channel or connection closed'')),
             Channels_delete 1] \<rparr>"
  by (simp add: ChannelChildAbstract_destroy_def ChannelAbstract_destroy_def two_waiters_def
      call_api_tick_def Let_def pending_def ChannelAbstract_new_def callbacks_set_def callback_def
      METHODS_basic_consume_ok_def METHODS_channel_close_ok_def)

theorem destroy_rejects_every_pending_waiter_once_witness:
  "effects (ChannelChildAbstract_destroy False None two_waiters)
     = effects two_waiters
       @ [Call_close None,
          Settled 0 (reject (HardError 0 connection_forced ''Channel or connection closed'')),
          Settled 1 (reject (HardError 0 connection_forced ''Channel or connection closed'')),
          Channels_delete 1]
   \<and> pending_refs (ChannelChildAbstract_destroy False None two_waiters) = {}
   \<and> handle_method_tick METHODS_basic_consume_ok ()
        (ChannelChildAbstract_destroy False None two_waiters)
     = ChannelChildAbstract_destroy False None two_waiters"
proof -
  note th = destroy_rejects_every_pending_waiter_once
    [OF two_waiters_evolves, where err = None and socket_destroyed = False]
  have "evolves (ChannelChildAbstract_destroy False None two_waiters)
          (ChannelChildAbstract_destroy False None two_waiters)"
    by (rule evolves.start)
  with th have "handle_method_tick METHODS_basic_consume_ok ()
        (ChannelChildAbstract_destroy False None two_waiters)
     = ChannelChildAbstract_destroy False None two_waiters"
    by blast
  moreover from th have "pending_refs (ChannelChildAbstract_destroy False None two_waiters) = {}"
    by blast
  ultimately show ?thesis by (simp add: two_waiters_destroyed)
qed

section \<open>The basic.deliver handler of ChannelConsume\<close>

lemma destroyed_ChannelConsume_destroy: "destroyed (ChannelConsume_destroy socket_destroyed err this)"
  by (simp add: ChannelConsume_destroy_def Let_def)

text \<open>
  C9, as amended. On a channel that is not destroyed, the \<open>basic.deliver\<close> handler
  destroys the channel if and only if a non-empty consumer tag has been recorded and
  the delivery's \<open>consumer_tag\<close> differs from it, and then it is
  \<open>destroy(SoftError(basic_deliver, no_consumers))\<close>. Every other delivery is accepted:
  the channel stays as it is, and the delivery is pushed to the input queue unless the
  queue has been destroyed, in which case nothing happens.
\<close>

theorem basic_deliver_destroys_iff_tag_mismatch:
  assumes "\<not> destroyed this"
  shows "(destroyed (basic_deliver_handler socket_destroyed args this)
          \<longleftrightarrow> c_consumer_tag this \<noteq> None \<and> c_consumer_tag this \<noteq> Some []
              \<and> c_consumer_tag this \<noteq> Some (consumer_tag args))
       \<and> (destroyed (basic_deliver_handler socket_destroyed args this)
            \<longrightarrow> basic_deliver_handler socket_destroyed args this
                = ChannelConsume_destroy socket_destroyed
                    (Some (SoftError METHODS_basic_deliver no_consumers ''Invalid consumer tag''))
                    this)
       \<and> (\<not> destroyed (basic_deliver_handler socket_destroyed args this)
            \<longrightarrow> basic_deliver_handler socket_destroyed args this
                = (if stream_destroyed (c_input this) then this
                   else this \<lparr> c_input := (c_input this)
                          \<lparr> pushed := pushed (c_input this) @ [Some (chunk_deliver args)] \<rparr> \<rparr>))"
  using assms
  by (auto simp: basic_deliver_handler_def destroyed_ChannelConsume_destroy push_def)

theorem basic_deliver_destroys_iff_tag_mismatch_witness:
  "\<not> destroyed (basic_deliver_handler False delivery_ctag (ChannelConsume_new 1 :: unit ChannelConsume))
   \<and> pushed (c_input (basic_deliver_handler False delivery_ctag
                         (ChannelConsume_new 1 :: unit ChannelConsume)))
       = [Some (chunk_deliver delivery_ctag)]"
proof -
  define c0 :: "unit ChannelConsume" where "c0 = ChannelConsume_new 1"
  have nd: "\<not> destroyed c0" and tag: "c_consumer_tag c0 = None"
    and inp: "\<not> stream_destroyed (c_input c0)" "pushed (c_input c0) = []"
    by (simp_all add: c0_def ChannelConsume_new_def ReadableAsync_new_def)
  note th = basic_deliver_destroys_iff_tag_mismatch [OF nd, of False delivery_ctag]
  from th tag have 1: "\<not> destroyed (basic_deliver_handler False delivery_ctag c0)" by simp
  with th have "basic_deliver_handler False delivery_ctag c0
                = (if stream_destroyed (c_input c0) then c0
                   else c0 \<lparr> c_input := (c_input c0)
                          \<lparr> pushed := pushed (c_input c0) @ [Some (chunk_deliver delivery_ctag)] \<rparr> \<rparr>)"
    by blast
  then have "pushed (c_input (basic_deliver_handler False delivery_ctag c0))
             = [Some (chunk_deliver delivery_ctag)]"
    using inp by simp
  with 1 show ?thesis by (simp add: c0_def)
qed

text \<open>
  C9, the claim as stated fails: on a channel that has recorded no consumer tag and
  whose input queue is destroyed (as after \<open>unsubscribe\<close>), a delivery is not pushed:
  the handler returns at \<open>if (this._input.destroyed) return\<close>.
\<close>

theorem basic_deliver_dropped_when_input_destroyed:
  "c_consumer_tag consume_channel_input_destroyed = None
   \<and> \<not> destroyed consume_channel_input_destroyed
   \<and> basic_deliver_handler False delivery_ctag consume_channel_input_destroyed
       = consume_channel_input_destroyed
   \<and> pushed (c_input (basic_deliver_handler False delivery_ctag consume_channel_input_destroyed))
       = [None]"
  by (simp add: basic_deliver_handler_def consume_channel_input_destroyed_def
      ChannelConsume_new_def)

section \<open>ConsumeStream: the assembly of a message body\<close>

lemma pushed_to_Nil [simp]: "pushed_to b [] this = this"
  by (simp add: pushed_to_def)

lemma pushed_to_pushed_to [simp]:
  "b < length (readables this) \<Longrightarrow> pushed_to b ys (pushed_to b xs this) = pushed_to b (xs @ ys) this"
  by (simp add: pushed_to_def)

lemma pushed_to_fields [simp]:
  "current (pushed_to b xs this) = current this"
  "wait_size (pushed_to b xs this) = wait_size this"
  "emitted (pushed_to b xs this) = emitted this"
  "length (readables (pushed_to b xs this)) = length (readables this)"
  by (simp_all add: pushed_to_def)

lemma body_empty:
  "in_progress this b w \<Longrightarrow> writeAsync (chunk_body []) this = Inr this"
  by (auto simp: in_progress_def writeAsync_def)

lemma body_less:
  assumes "in_progress this b w" "f \<noteq> []" "length f < w"
  shows "writeAsync (chunk_body f) this
         = Inr ((pushed_to b [Some f] this) \<lparr> wait_size := int (w - length f) \<rparr>)"
  using assms
  by (auto simp: in_progress_def writeAsync_def Let_def pushed_to_def push_def of_nat_diff)

lemma body_equal:
  assumes "in_progress this b w" "length f = w"
  shows "writeAsync (chunk_body f) this
         = Inr ((pushed_to b [Some f, None] this) \<lparr> current := None, wait_size := 0 \<rparr>)"
  using assms
  by (auto simp: in_progress_def writeAsync_def Let_def pushed_to_def push_def flush_message_def)

lemma body_more:
  assumes "in_progress this b w" "length f > w"
  shows "writeAsync (chunk_body f) this
         = Inl (HardError METHODS_basic_consume unexpected_frame ''Body size exceeded'')"
  using assms
  by (auto simp: in_progress_def writeAsync_def Let_def)

lemma body_idle:
  "current this = None \<Longrightarrow> writeAsync (chunk_body f) this
     = Inl (HardError METHODS_basic_consume unexpected_frame ''Unexpected body'')"
  by (simp add: writeAsync_def)

lemma in_progress_step:
  assumes "in_progress this b w" "length f < w"
  shows "in_progress ((pushed_to b [Some f] this) \<lparr> wait_size := int (w - length f) \<rparr>) b (w - length f)"
  using assms by (auto simp: in_progress_def pushed_to_def)

lemma nonempty_simps [simp]:
  "nonempty [] = []"
  "nonempty ([] # fs) = nonempty fs"
  "f \<noteq> [] \<Longrightarrow> nonempty (f # fs) = f # nonempty fs"
  by (simp_all add: nonempty_def)

lemma concat_nonempty: "concat (nonempty fs) = concat fs"
  by (induction fs) (auto simp: nonempty_def)

lemma bodies_idle:
  assumes "current this = None"
  shows "ConsumeStream_writes (map chunk_body fs) this
         = (if fs = [] then None
            else Some (HardError METHODS_basic_consume unexpected_frame ''Unexpected body''), this)"
  using assms by (cases fs) (simp_all add: body_idle)

lemma bodies_partial:
  assumes "in_progress this b w" "length (concat fs) < w"
  shows "ConsumeStream_writes (map chunk_body fs) this
         = (None, (pushed_to b (map Some (nonempty fs)) this)
                    \<lparr> wait_size := int (w - length (concat fs)) \<rparr>)"
  using assms
proof (induction fs arbitrary: this w)
  case Nil
  then show ?case by (simp add: in_progress_def)
next
  case (Cons f fs)
  show ?case
  proof (cases "f = []")
    case True
    with Cons show ?thesis by (simp add: body_empty)
  next
    case False
    from Cons.prems have lt: "length f < w" and rest: "length (concat fs) < w - length f" by simp_all
    let ?this1 = "(pushed_to b [Some f] this) \<lparr> wait_size := int (w - length f) \<rparr>"
    have b: "b < length (readables this)" using Cons.prems(1) by (simp add: in_progress_def)
    have step: "writeAsync (chunk_body f) this = Inr ?this1"
      using Cons.prems(1) False lt by (rule body_less)
    have ip: "in_progress ?this1 b (w - length f)"
      using Cons.prems(1) lt by (rule in_progress_step)
    have "ConsumeStream_writes (map chunk_body (f # fs)) this
          = ConsumeStream_writes (map chunk_body fs) ?this1"
      by (simp add: step)
    also have "\<dots> = (None, (pushed_to b (map Some (nonempty fs)) ?this1)
                    \<lparr> wait_size := int (w - length f - length (concat fs)) \<rparr>)"
      using ip rest by (rule Cons.IH)
    also have "(pushed_to b (map Some (nonempty fs)) ?this1)
                    \<lparr> wait_size := int (w - length f - length (concat fs)) \<rparr>
               = (pushed_to b (map Some (nonempty (f # fs))) this)
                    \<lparr> wait_size := int (w - length (concat (f # fs))) \<rparr>"
      using b False by (simp add: pushed_to_def)
    finally show ?thesis .
  qed
qed

lemma bodies_complete:
  assumes "in_progress this b w" "length (concat fs) = w"
  shows "ConsumeStream_writes (map chunk_body fs) this
         = (if last fs \<noteq> [] then None
            else Some (HardError METHODS_basic_consume unexpected_frame ''Unexpected body''),
            (pushed_to b (map Some (nonempty fs) @ [None]) this)
               \<lparr> current := None, wait_size := 0 \<rparr>)"
  using assms
proof (induction fs arbitrary: this w)
  case Nil
  then show ?case by (simp add: in_progress_def)
next
  case (Cons f fs)
  have b: "b < length (readables this)" using Cons.prems(1) by (simp add: in_progress_def)
  have w: "0 < w" using Cons.prems(1) by (simp add: in_progress_def)
  show ?case
  proof (cases "f = []")
    case True
    with Cons.prems w have "fs \<noteq> []" by auto
    with True Cons show ?thesis by (simp add: body_empty)
  next
    case False
    show ?thesis
    proof (cases "length f = w")
      case True
      let ?this1 = "(pushed_to b [Some f, None] this) \<lparr> current := None, wait_size := 0 \<rparr>"
      have step: "writeAsync (chunk_body f) this = Inr ?this1"
        using Cons.prems(1) True by (rule body_equal)
      from True Cons.prems(2) have empty: "\<forall>x\<in>set fs. x = []" by simp
      then have ne: "nonempty fs = []" by (simp add: nonempty_def)
      have last: "fs \<noteq> [] \<Longrightarrow> last fs = []" using empty by simp
      have "ConsumeStream_writes (map chunk_body (f # fs)) this
            = ConsumeStream_writes (map chunk_body fs) ?this1"
        by (simp add: step)
      also have "\<dots> = (if fs = [] then None
            else Some (HardError METHODS_basic_consume unexpected_frame ''Unexpected body''), ?this1)"
        by (rule bodies_idle) simp
      finally show ?thesis using False ne last by simp
    next
      case neq: False
      with Cons.prems(2) have lt: "length f < w" and rest: "length (concat fs) = w - length f"
        by simp_all
      let ?this1 = "(pushed_to b [Some f] this) \<lparr> wait_size := int (w - length f) \<rparr>"
      have step: "writeAsync (chunk_body f) this = Inr ?this1"
        using Cons.prems(1) False lt by (rule body_less)
      have ip: "in_progress ?this1 b (w - length f)"
        using Cons.prems(1) lt by (rule in_progress_step)
      have fs: "fs \<noteq> []" using rest lt by auto
      have "ConsumeStream_writes (map chunk_body (f # fs)) this
            = ConsumeStream_writes (map chunk_body fs) ?this1"
        by (simp add: step)
      also have "\<dots> = (if last fs \<noteq> [] then None
            else Some (HardError METHODS_basic_consume unexpected_frame ''Unexpected body''),
            (pushed_to b (map Some (nonempty fs) @ [None]) ?this1)
               \<lparr> current := None, wait_size := 0 \<rparr>)"
        using ip rest by (rule Cons.IH)
      also have "(pushed_to b (map Some (nonempty fs) @ [None]) ?this1)
               \<lparr> current := None, wait_size := 0 \<rparr>
            = (pushed_to b (map Some (nonempty (f # fs)) @ [None]) this)
               \<lparr> current := None, wait_size := 0 \<rparr>"
        using b False by (simp add: pushed_to_def)
      finally show ?thesis using fs by simp
    qed
  qed
qed

lemma bodies_exceed:
  assumes "in_progress this b w" "w < length (concat fs)"
  shows "is_unexpected_frame (fst (ConsumeStream_writes (map chunk_body fs) this))"
  using assms
proof (induction fs arbitrary: this w)
  case Nil
  then show ?case by simp
next
  case (Cons f fs)
  consider "f = []" | "f \<noteq> []" "length f < w" | "length f = w" | "w < length f" by linarith
  then show ?case
  proof cases
    case 1
    with Cons show ?thesis by (simp add: body_empty)
  next
    case 2
    have "in_progress ((pushed_to b [Some f] this) \<lparr> wait_size := int (w - length f) \<rparr>) b (w - length f)"
      using Cons.prems(1) 2(2) by (rule in_progress_step)
    moreover have "w - length f < length (concat fs)" using Cons.prems(2) 2 by simp
    ultimately have "is_unexpected_frame (fst (ConsumeStream_writes (map chunk_body fs)
         ((pushed_to b [Some f] this) \<lparr> wait_size := int (w - length f) \<rparr>)))"
      by (rule Cons.IH)
    then show ?thesis by (simp add: body_less [OF Cons.prems(1) 2])
  next
    case 3
    with Cons.prems(2) have "fs \<noteq> []" by auto
    then show ?thesis
      by (simp add: body_equal [OF Cons.prems(1) 3] bodies_idle is_unexpected_frame_def)
  next
    case 4
    then show ?thesis
      by (simp add: body_more [OF Cons.prems(1) 4] is_unexpected_frame_def)
  qed
qed

lemma writeAsync_wait_size:
  assumes "0 \<le> wait_size this" "wait_size this \<le> int MAX_SAFE_INTEGER" "safe_sizes [chunk]"
    and "writeAsync chunk this = Inr this'"
  shows "0 \<le> wait_size this' \<and> wait_size this' \<le> int MAX_SAFE_INTEGER"
  using assms
  by (auto simp: writeAsync_def flush_message_def safe_sizes_def Let_def
           split: ConsumeChunk.splits option.splits if_splits)

lemma writes_wait_size:
  assumes "0 \<le> wait_size this" "wait_size this \<le> int MAX_SAFE_INTEGER" "safe_sizes chunks"
  shows "0 \<le> wait_size (snd (ConsumeStream_writes chunks this))
         \<and> wait_size (snd (ConsumeStream_writes chunks this)) \<le> int MAX_SAFE_INTEGER"
  using assms
proof (induction chunks arbitrary: this)
  case Nil
  then show ?case by simp
next
  case (Cons c cs)
  from Cons.prems(3) have c: "safe_sizes [c]" and cs: "safe_sizes cs"
    by (simp_all add: safe_sizes_def)
  show ?case
  proof (cases "writeAsync c this")
    case (Inl e)
    with Cons.prems show ?thesis by simp
  next
    case (Inr this')
    from Cons.prems(1,2) c Inr
    have "0 \<le> wait_size this' \<and> wait_size this' \<le> int MAX_SAFE_INTEGER"
      by (rule writeAsync_wait_size)
    then have "0 \<le> wait_size (snd (ConsumeStream_writes cs this'))
         \<and> wait_size (snd (ConsumeStream_writes cs this')) \<le> int MAX_SAFE_INTEGER"
      using cs by (intro Cons.IH) simp_all
    with Inr show ?thesis by simp
  qed
qed

lemma message_start:
  assumes "current this = None" "0 < N"
    and m: "m = \<lparr> msg_deliver = d, msg_properties = Some props,
                   msg_body = Some (length (readables this)), msg_body_size = N \<rparr>"
    and this2: "this2 = this \<lparr> current := Some m,
                           readables := readables this @ [ReadableAsync_new],
                           wait_size := int N, emitted := emitted this @ [m] \<rparr>"
  shows "ConsumeStream_writes (message_chunks d props N frames) this
         = ConsumeStream_writes (map chunk_body frames) this2"
    and "in_progress this2 (length (readables this)) N"
  using assms by (simp_all add: message_chunks_def writeAsync_def Let_def in_progress_def)

lemma pipeline_callback_destroys:
  assumes "map_of (channels connection) key = Some ch" "\<not> destroyed ch"
  shows "subscribe_pipeline_callback sd err key connection
         = (connection \<lparr> channels := [], conn_destroyed := True \<rparr>,
            map (\<lambda>(k, c). ChannelConsume_destroy sd err c) (channels connection))"
  using assms by (simp add: subscribe_pipeline_callback_def Connection_destroy_def)

lemma pipeline_callback_channel:
  assumes "map_of (channels connection) key = Some ch" "\<not> destroyed ch"
  shows "channels (fst (subscribe_pipeline_callback sd err key connection)) = []"
    and "list_all destroyed (snd (subscribe_pipeline_callback sd err key connection))"
    and "ChannelConsume_destroy sd err ch
           \<in> set (snd (subscribe_pipeline_callback sd err key connection))"
proof -
  note eq = pipeline_callback_destroys [OF assms, of sd err]
  show "channels (fst (subscribe_pipeline_callback sd err key connection)) = []"
    by (simp add: eq)
  show "list_all destroyed (snd (subscribe_pipeline_callback sd err key connection))"
    by (auto simp: eq list_all_iff destroyed_ChannelConsume_destroy)
  from assms(1) have "(key, ch) \<in> set (channels connection)" by (rule map_of_SomeD)
  then show "ChannelConsume_destroy sd err ch
           \<in> set (snd (subscribe_pipeline_callback sd err key connection))"
    by (force simp: eq)
qed

text \<open>
  C5, as amended. A message is delivered to an idle stream with a declared body size
  \<open>N > 0\<close>, an exact number, followed by body frames. While the frames sum to less than
  \<open>N\<close>, the body stream handed out with the message holds the frames that are not
  empty, in order, and is open, and \<open>_wait_size\<close> is what is left of \<open>N\<close>. When the frames
  sum to \<open>N\<close>, the body stream holds the frames that are not empty, in order, followed by
  the end of the stream: their concatenation is the concatenation of all the frames, the
  \<open>N\<close> octets of the body, and the stream has been closed; the message has been emitted
  once, with the properties and this body stream; and the writing has succeeded unless
  the last frame is empty: an empty frame is ignored while the body is incomplete, and
  one that comes after the body is complete fails with \<open>Unexpected body\<close>, as every
  body frame does then. When the frames sum to more than \<open>N\<close>, the writing fails with a
  \<open>HardError(basic_consume, unexpected_frame)\<close>. The callback of the pipeline on such
  an error, for a consume channel which is in the map of the connection and not
  destroyed, destroys every channel of the connection with it, this channel among
  them, and empties the map. Whatever chunks with exact body sizes are written,
  \<open>_wait_size\<close> is not negative and stays an exact number.
\<close>

theorem body_frames_assemble_content:
  fixes this :: ConsumeStream and connection :: "'a ChannelConsume Connection"
  assumes idle: "current this = None"
    and counter: "0 \<le> wait_size this" "wait_size this \<le> int MAX_SAFE_INTEGER"
    and N: "0 < N" "N \<le> MAX_SAFE_INTEGER"
  shows "(length (concat frames) < N \<longrightarrow>
            ConsumeStream_writes (message_chunks d props N frames) this
            = (None, this \<lparr> current := Some \<lparr> msg_deliver = d, msg_properties = Some props,
                                 msg_body = Some (length (readables this)), msg_body_size = N \<rparr>,
                     readables := readables this @
                        [\<lparr> stream_destroyed = False, pushed = map Some (nonempty frames) \<rparr>],
                     wait_size := int (N - length (concat frames)),
                     emitted := emitted this @ [\<lparr> msg_deliver = d, msg_properties = Some props,
                                 msg_body = Some (length (readables this)), msg_body_size = N \<rparr>] \<rparr>))
       \<and> (length (concat frames) = N \<longrightarrow>
            ConsumeStream_writes (message_chunks d props N frames) this
            = (if last frames \<noteq> [] then None
               else Some (HardError METHODS_basic_consume unexpected_frame ''Unexpected body''),
               this \<lparr> readables := readables this @
                        [\<lparr> stream_destroyed = False, pushed = map Some (nonempty frames) @ [None] \<rparr>],
                     emitted := emitted this @ [\<lparr> msg_deliver = d, msg_properties = Some props,
                                 msg_body = Some (length (readables this)), msg_body_size = N \<rparr>],
                     wait_size := 0 \<rparr>)
            \<and> concat (nonempty frames) = concat frames)
       \<and> (N < length (concat frames) \<longrightarrow>
            is_unexpected_frame (fst (ConsumeStream_writes (message_chunks d props N frames) this)))
       \<and> (is_unexpected_frame (fst (ConsumeStream_writes (message_chunks d props N frames) this))
            \<and> map_of (channels connection) key = Some ch \<and> \<not> destroyed ch \<longrightarrow>
                 channels (fst (subscribe_pipeline_callback sd
                    (fst (ConsumeStream_writes (message_chunks d props N frames) this))
                    key connection)) = []
                 \<and> list_all destroyed (snd (subscribe_pipeline_callback sd
                    (fst (ConsumeStream_writes (message_chunks d props N frames) this))
                    key connection))
                 \<and> ChannelConsume_destroy sd
                      (fst (ConsumeStream_writes (message_chunks d props N frames) this)) ch
                    \<in> set (snd (subscribe_pipeline_callback sd
                    (fst (ConsumeStream_writes (message_chunks d props N frames) this))
                    key connection)))
       \<and> (safe_sizes chunks \<longrightarrow>
            0 \<le> wait_size (snd (ConsumeStream_writes chunks this))
            \<and> wait_size (snd (ConsumeStream_writes chunks this)) \<le> int MAX_SAFE_INTEGER)"
proof -
  define m where "m = \<lparr> msg_deliver = d, msg_properties = Some props,
                   msg_body = Some (length (readables this)), msg_body_size = N \<rparr>"
  define this2 where "this2 = this \<lparr> current := Some m,
                           readables := readables this @ [ReadableAsync_new],
                           wait_size := int N, emitted := emitted this @ [m] \<rparr>"
  note start = message_start [OF idle N(1) m_def this2_def]
  have A: "length (concat frames) < N \<longrightarrow>
            ConsumeStream_writes (message_chunks d props N frames) this
            = (None, this \<lparr> current := Some m,
                     readables := readables this @
                        [\<lparr> stream_destroyed = False, pushed = map Some (nonempty frames) \<rparr>],
                     wait_size := int (N - length (concat frames)),
                     emitted := emitted this @ [m] \<rparr>)"
  proof
    assume "length (concat frames) < N"
    with start(2) have "ConsumeStream_writes (map chunk_body frames) this2
         = (None, (pushed_to (length (readables this)) (map Some (nonempty frames)) this2)
                    \<lparr> wait_size := int (N - length (concat frames)) \<rparr>)"
      by (rule bodies_partial)
    then show "ConsumeStream_writes (message_chunks d props N frames) this
            = (None, this \<lparr> current := Some m,
                     readables := readables this @
                        [\<lparr> stream_destroyed = False, pushed = map Some (nonempty frames) \<rparr>],
                     wait_size := int (N - length (concat frames)),
                     emitted := emitted this @ [m] \<rparr>)"
      by (simp add: start(1) this2_def pushed_to_def ReadableAsync_new_def)
  qed
  have B: "length (concat frames) = N \<longrightarrow>
            ConsumeStream_writes (message_chunks d props N frames) this
            = (if last frames \<noteq> [] then None
               else Some (HardError METHODS_basic_consume unexpected_frame ''Unexpected body''),
               this \<lparr> readables := readables this @
                        [\<lparr> stream_destroyed = False, pushed = map Some (nonempty frames) @ [None] \<rparr>],
                     emitted := emitted this @ [m],
                     wait_size := 0 \<rparr>)
            \<and> concat (nonempty frames) = concat frames"
  proof
    assume "length (concat frames) = N"
    with start(2) have "ConsumeStream_writes (map chunk_body frames) this2
         = (if last frames \<noteq> [] then None
            else Some (HardError METHODS_basic_consume unexpected_frame ''Unexpected body''),
            (pushed_to (length (readables this)) (map Some (nonempty frames) @ [None]) this2)
               \<lparr> current := None, wait_size := 0 \<rparr>)"
      by (rule bodies_complete)
    moreover have "(pushed_to (length (readables this)) (map Some (nonempty frames) @ [None]) this2)
               \<lparr> current := None, wait_size := 0 \<rparr>
          = this \<lparr> readables := readables this @
                        [\<lparr> stream_destroyed = False, pushed = map Some (nonempty frames) @ [None] \<rparr>],
                     emitted := emitted this @ [m],
                     wait_size := 0 \<rparr>"
      using idle by (simp add: this2_def pushed_to_def ReadableAsync_new_def)
    ultimately show "ConsumeStream_writes (message_chunks d props N frames) this
            = (if last frames \<noteq> [] then None
               else Some (HardError METHODS_basic_consume unexpected_frame ''Unexpected body''),
               this \<lparr> readables := readables this @
                        [\<lparr> stream_destroyed = False, pushed = map Some (nonempty frames) @ [None] \<rparr>],
                     emitted := emitted this @ [m],
                     wait_size := 0 \<rparr>)
            \<and> concat (nonempty frames) = concat frames"
      by (simp add: start(1) concat_nonempty)
  qed
  have C: "N < length (concat frames) \<longrightarrow>
            is_unexpected_frame (fst (ConsumeStream_writes (message_chunks d props N frames) this))"
  proof
    assume "N < length (concat frames)"
    with start(2) have "is_unexpected_frame (fst (ConsumeStream_writes (map chunk_body frames) this2))"
      by (rule bodies_exceed)
    then show "is_unexpected_frame (fst (ConsumeStream_writes (message_chunks d props N frames) this))"
      by (simp add: start(1))
  qed
  have D: "map_of (channels connection) key = Some ch \<and> \<not> destroyed ch \<longrightarrow>
                 channels (fst (subscribe_pipeline_callback sd err key connection)) = []
                 \<and> list_all destroyed (snd (subscribe_pipeline_callback sd err key connection))
                 \<and> ChannelConsume_destroy sd err ch
                    \<in> set (snd (subscribe_pipeline_callback sd err key connection))" for err
    using pipeline_callback_channel [of connection key ch sd err] by simp
  have E: "safe_sizes chunks \<longrightarrow>
            0 \<le> wait_size (snd (ConsumeStream_writes chunks this))
            \<and> wait_size (snd (ConsumeStream_writes chunks this)) \<le> int MAX_SAFE_INTEGER"
    using writes_wait_size [OF counter] by simp
  from A B C D E show ?thesis unfolding m_def by simp
qed

theorem body_frames_assemble_content_witness:
  "ConsumeStream_writes (message_chunks delivery_ctag [] 3 [[1], [], [2, 3]]) ConsumeStream_new
     = (None, \<lparr> current = None, wait_size = 0,
                readables = [\<lparr> stream_destroyed = False,
                               pushed = [Some [1], Some [2, 3], None] \<rparr>],
                emitted = [\<lparr> msg_deliver = delivery_ctag, msg_properties = Some [],
                             msg_body = Some 0, msg_body_size = 3 \<rparr>] \<rparr>)
   \<and> is_unexpected_frame
        (fst (ConsumeStream_writes (message_chunks delivery_ctag [] 3 [[1, 2], [3, 4]])
                ConsumeStream_new))
   \<and> channels (fst (subscribe_pipeline_callback False
        (fst (ConsumeStream_writes (message_chunks delivery_ctag [] 3 [[1, 2], [3, 4]])
                ConsumeStream_new)) 1 consume_connection)) = []
   \<and> list_all destroyed (snd (subscribe_pipeline_callback False
        (fst (ConsumeStream_writes (message_chunks delivery_ctag [] 3 [[1, 2], [3, 4]])
                ConsumeStream_new)) 1 consume_connection))
   \<and> 0 \<le> wait_size (snd (ConsumeStream_writes
        (message_chunks delivery_ctag [] 3 [[1, 2], [3, 4]]) ConsumeStream_new))"
proof -
  have idle: "current ConsumeStream_new = None"
    and counter: "0 \<le> wait_size ConsumeStream_new"
      "wait_size ConsumeStream_new \<le> int MAX_SAFE_INTEGER"
    by (simp_all add: ConsumeStream_new_def)
  have N: "0 < (3::nat)" "3 \<le> MAX_SAFE_INTEGER"
    by (simp_all add: MAX_SAFE_INTEGER_def)
  have ch: "map_of (channels consume_connection) 1 = Some (ChannelConsume_new 1)"
    "\<not> destroyed (ChannelConsume_new 1 :: unit ChannelConsume)"
    by (simp_all add: consume_connection_def ChannelConsume_new_def)
  have safe: "safe_sizes (message_chunks delivery_ctag [] 3 [[1, 2], [3, 4]])"
    using N(2) by (simp add: safe_sizes_def message_chunks_def)
  note exact = body_frames_assemble_content [OF idle counter N,
      where frames = "[[1], [], [2, 3]]" and d = delivery_ctag and props = "[]"]
  note over = body_frames_assemble_content [OF idle counter N,
      where frames = "[[1, 2], [3, 4]]" and d = delivery_ctag and props = "[]"
        and connection = consume_connection and key = 1 and ch = "ChannelConsume_new 1"
        and sd = False
        and chunks = "message_chunks delivery_ctag [] 3 [[1, 2], [3, 4]]"]
  have 1: "ConsumeStream_writes (message_chunks delivery_ctag [] 3 [[1], [], [2, 3]]) ConsumeStream_new
     = (None, \<lparr> current = None, wait_size = 0,
                readables = [\<lparr> stream_destroyed = False,
                               pushed = [Some [1], Some [2, 3], None] \<rparr>],
                emitted = [\<lparr> msg_deliver = delivery_ctag, msg_properties = Some [],
                             msg_body = Some 0, msg_body_size = 3 \<rparr>] \<rparr>)"
    using exact [THEN conjunct2, THEN conjunct1] by (simp add: nonempty_def ConsumeStream_new_def)
  have 2: "is_unexpected_frame
        (fst (ConsumeStream_writes (message_chunks delivery_ctag [] 3 [[1, 2], [3, 4]])
                ConsumeStream_new))
   \<and> channels (fst (subscribe_pipeline_callback False
        (fst (ConsumeStream_writes (message_chunks delivery_ctag [] 3 [[1, 2], [3, 4]])
                ConsumeStream_new)) 1 consume_connection)) = []
   \<and> list_all destroyed (snd (subscribe_pipeline_callback False
        (fst (ConsumeStream_writes (message_chunks delivery_ctag [] 3 [[1, 2], [3, 4]])
                ConsumeStream_new)) 1 consume_connection))
   \<and> 0 \<le> wait_size (snd (ConsumeStream_writes
        (message_chunks delivery_ctag [] 3 [[1, 2], [3, 4]]) ConsumeStream_new))"
    using over ch safe by simp
  from 1 2 show ?thesis by (rule conjI)
qed

lemma writes_message_1_23_empty:
  "ConsumeStream_writes (message_chunks delivery_ctag [] 3 [[1], [2, 3], []]) ConsumeStream_new
     = (Some (HardError METHODS_basic_consume unexpected_frame ''Unexpected body''),
        \<lparr> current = None, wait_size = 0,
          readables = [\<lparr> stream_destroyed = False,
                         pushed = [Some [1], Some [2, 3], None] \<rparr>],
          emitted = [\<lparr> msg_deliver = delivery_ctag, msg_properties = Some [],
                       msg_body = Some 0, msg_body_size = 3 \<rparr>] \<rparr>)"
  by (simp add: message_chunks_def writeAsync_def flush_message_def push_def Let_def
      ConsumeStream_new_def ReadableAsync_new_def)

text \<open>
  C5, the claim as stated fails: the body of a message of 3 octets comes as the frames
  \<open>01\<close>, \<open>02 03\<close> and an empty frame, which sum to 3 and of which none makes the sum
  exceed 3. The body stream holds the 3 octets and is closed, but the empty frame is
  not ignored: it comes when \<open>flush_message\<close> has deleted \<open>_current\<close>, and the test of
  \<open>_current\<close> comes before the test of the length, so the writing fails with
  \<open>HardError(basic_consume, unexpected_frame, 'Unexpected body')\<close>, and the callback of
  the pipeline destroys the channels of the connection.
\<close>

theorem empty_frame_after_complete_body_fails:
  "fst (ConsumeStream_writes (message_chunks delivery_ctag [] 3 [[1], [2, 3], []])
          ConsumeStream_new)
     = Some (HardError METHODS_basic_consume unexpected_frame ''Unexpected body'')
   \<and> readables (snd (ConsumeStream_writes (message_chunks delivery_ctag [] 3 [[1], [2, 3], []])
          ConsumeStream_new))
     = [\<lparr> stream_destroyed = False, pushed = [Some [1], Some [2, 3], None] \<rparr>]
   \<and> channels (fst (subscribe_pipeline_callback False
        (fst (ConsumeStream_writes (message_chunks delivery_ctag [] 3 [[1], [2, 3], []])
                ConsumeStream_new)) 1 consume_connection)) = []
   \<and> map destroyed (snd (subscribe_pipeline_callback False
        (fst (ConsumeStream_writes (message_chunks delivery_ctag [] 3 [[1], [2, 3], []])
                ConsumeStream_new)) 1 consume_connection)) = [True]"
  by (simp add: writes_message_1_23_empty subscribe_pipeline_callback_def
      Connection_destroy_def consume_connection_def ChannelConsume_new_def
      destroyed_ChannelConsume_destroy)

end
